theory Spec2Isabelle
  imports Main "HOL-Library.AList" "HOL-Library.Sublist"
begin

section \<open>Path names as \<^verbatim>\<open>java.io.File\<close> sees them\<close>

text \<open>
  The Android engine (\<^verbatim>\<open>UnarchiveModule.kt\<close>) works on \<^verbatim>\<open>java.io.File\<close> values. A
  \<^verbatim>\<open>File\<close> is an abstract path name: a flag saying whether it starts at the root, and the
  sequence of its names. \<^verbatim>\<open>File\<close> keeps \<^verbatim>\<open>.\<close> and \<^verbatim>\<open>..\<close> names as they are and only
  drops empty names (doubled or trailing separators).

  Canonicalisation is modelled on a file system without symbolic links, where it is the
  lexical resolution of \<^verbatim>\<open>.\<close> and \<^verbatim>\<open>..\<close> in the absolute path, and never raises.
\<close>

type_synonym bytes = string
type_synonym path = "string list"

primrec split_slash :: "string \<Rightarrow> string \<Rightarrow> string list" where
  "split_slash cur [] = (if cur = [] then [] else [cur])"
| "split_slash cur (c # cs) =
     (if c = CHR ''/'' then (if cur = [] then [] else [cur]) @ split_slash [] cs
      else split_slash (cur @ [c]) cs)"

definition segments :: "string \<Rightarrow> path" where
  "segments s = split_slash [] s"

fun joinPath :: "path \<Rightarrow> string" where
  "joinPath [] = []"
| "joinPath [x] = x"
| "joinPath (x # y # ys) = x @ ''/'' @ joinPath (y # ys)"

datatype jfile = File (isAbsolute: bool) (names: path)

text \<open>\<^verbatim>\<open>File(pathname)\<close>.\<close>
definition newFile :: "string \<Rightarrow> jfile" where
  "newFile s = File (case s of [] \<Rightarrow> False | c # _ \<Rightarrow> c = CHR ''/'') (segments s)"

text \<open>
  \<^verbatim>\<open>File(parent, child)\<close>: the child is resolved against the parent, also when the child
  string starts with a separator; a null parent gives \<^verbatim>\<open>File(child)\<close>, and the empty parent
  resolves the child against the root.
\<close>
definition newFileIn :: "jfile option \<Rightarrow> string \<Rightarrow> jfile" where
  "newFileIn parent child =
     (case parent of
        None \<Rightarrow> newFile child
      | Some (File a ns) \<Rightarrow>
          if \<not> a \<and> ns = [] then File True (segments child)
          else File a (ns @ segments child))"

definition getPath :: "jfile \<Rightarrow> string" where
  "getPath f = (if isAbsolute f then ''/'' else []) @ joinPath (names f)"

definition getName :: "jfile \<Rightarrow> string" where
  "getName f = (if names f = [] then [] else last (names f))"

definition getParentFile :: "jfile \<Rightarrow> jfile option" where
  "getParentFile f =
     (if names f = [] then None
      else if butlast (names f) = [] \<and> \<not> isAbsolute f then None
      else Some (File (isAbsolute f) (butlast (names f))))"

definition canon :: "path \<Rightarrow> path" where
  "canon ns =
     foldl (\<lambda>acc s. if s = ''.'' then acc else if s = ''..'' then butlast acc else acc @ [s])
       [] ns"

text \<open>\<^verbatim>\<open>toPath().relativize\<close>: raises when one path is absolute and the other is not.\<close>
fun relativize_names :: "path \<Rightarrow> path \<Rightarrow> path" where
  "relativize_names [] os = os"
| "relativize_names (b # bs) [] = replicate (length (b # bs)) ''..''"
| "relativize_names (b # bs) (x # os) =
     (if b = x then relativize_names bs os
      else replicate (length (b # bs)) ''..'' @ (x # os))"

definition relativize :: "jfile \<Rightarrow> jfile \<Rightarrow> string option" where
  "relativize base other =
     (if isAbsolute base \<noteq> isAbsolute other then None
      else Some (joinPath (relativize_names (names base) (names other))))"

text \<open>Kotlin's string template for an \<^verbatim>\<open>Int\<close> index or a \<^verbatim>\<open>Long\<close> time stamp.\<close>
function show_nat :: "nat \<Rightarrow> string" where
  "show_nat n =
     (if n < 10 then [char_of (48 + n)]
      else show_nat (n div 10) @ [char_of (48 + n mod 10)])"
  by pat_completeness auto
termination
  by (relation "measure id") auto

declare show_nat.simps [simp del]

text \<open>
  A random UUID in a string template: the hexadecimal digits drawn, printed in five
  groups. Java prints the digits in lower case, \<^verbatim>\<open>NSUUID\<close> in upper case.
\<close>
datatype hex = H0 | H1 | H2 | H3 | H4 | H5 | H6 | H7 | H8 | H9 | HA | HB | HC | HD | HE | HF

fun lowerHex :: "hex \<Rightarrow> char" where
  "lowerHex H0 = CHR ''0''" | "lowerHex H1 = CHR ''1''" | "lowerHex H2 = CHR ''2''"
| "lowerHex H3 = CHR ''3''" | "lowerHex H4 = CHR ''4''" | "lowerHex H5 = CHR ''5''"
| "lowerHex H6 = CHR ''6''" | "lowerHex H7 = CHR ''7''" | "lowerHex H8 = CHR ''8''"
| "lowerHex H9 = CHR ''9''" | "lowerHex HA = CHR ''a''" | "lowerHex HB = CHR ''b''"
| "lowerHex HC = CHR ''c''" | "lowerHex HD = CHR ''d''" | "lowerHex HE = CHR ''e''"
| "lowerHex HF = CHR ''f''"

fun upperHex :: "hex \<Rightarrow> char" where
  "upperHex H0 = CHR ''0''" | "upperHex H1 = CHR ''1''" | "upperHex H2 = CHR ''2''"
| "upperHex H3 = CHR ''3''" | "upperHex H4 = CHR ''4''" | "upperHex H5 = CHR ''5''"
| "upperHex H6 = CHR ''6''" | "upperHex H7 = CHR ''7''" | "upperHex H8 = CHR ''8''"
| "upperHex H9 = CHR ''9''" | "upperHex HA = CHR ''A''" | "upperHex HB = CHR ''B''"
| "upperHex HC = CHR ''C''" | "upperHex HD = CHR ''D''" | "upperHex HE = CHR ''E''"
| "upperHex HF = CHR ''F''"

definition uuidString :: "(hex \<Rightarrow> char) \<Rightarrow> hex list \<Rightarrow> string" where
  "uuidString print u =
     (let d = map print u
      in take 8 d @ ''-'' @ take 4 (drop 8 d) @ ''-'' @ take 4 (drop 12 d) @ ''-''
         @ take 4 (drop 16 d) @ ''-'' @ drop 20 d)"

section \<open>The file system\<close>

text \<open>
  The disk is a tree: a regular file holds its bytes, a directory its entries in listing
  order. Nodes are addressed by canonical absolute paths (lists of names from the root).
\<close>

datatype node = RegFile bytes | Directory "(string \<times> node) list"

primrec fs_lookup :: "path \<Rightarrow> node \<Rightarrow> node option" where
  "fs_lookup [] n = Some n"
| "fs_lookup (s # p) n =
     (case n of
        RegFile b \<Rightarrow> None
      | Directory es \<Rightarrow> (case map_of es s of None \<Rightarrow> None | Some c \<Rightarrow> fs_lookup p c))"

text \<open>
  \<open>fs_put p v t\<close> binds (\<open>v = Some n\<close>) or unbinds (\<open>v = None\<close>) the name at \<open>p\<close> when the
  parent of \<open>p\<close> is a directory; the root itself is never replaced.
\<close>
primrec fs_put :: "path \<Rightarrow> node option \<Rightarrow> node \<Rightarrow> node" where
  "fs_put [] v n = n"
| "fs_put (s # p) v n =
     (case n of
        RegFile b \<Rightarrow> RegFile b
      | Directory es \<Rightarrow>
          if p = [] then
            Directory (case v of Some m \<Rightarrow> AList.update s m es | None \<Rightarrow> AList.delete s es)
          else (case map_of es s of
                  None \<Rightarrow> Directory es
                | Some c \<Rightarrow> Directory (AList.update s (fs_put p v c) es)))"

text \<open>
  The entries a directory binds, in listing order (a name bound twice counts once, as it
  does for look-up).
\<close>
definition listEntries :: "(string \<times> node) list \<Rightarrow> (string \<times> node) list" where
  "listEntries es = AList.clearjunk es"

definition is_dir :: "node option \<Rightarrow> bool" where
  "is_dir x = (case x of Some (Directory _) \<Rightarrow> True | _ \<Rightarrow> False)"

text \<open>The bytes of the regular file at a path, if there is one.\<close>
definition fileAt :: "path \<Rightarrow> node \<Rightarrow> bytes option" where
  "fileAt p t = (case fs_lookup p t of Some (RegFile b) \<Rightarrow> Some b | _ \<Rightarrow> None)"

definition mkdir_at :: "path \<Rightarrow> node \<Rightarrow> node" where
  "mkdir_at p t =
     (if p \<noteq> [] \<and> fs_lookup p t = None \<and> is_dir (fs_lookup (butlast p) t)
      then fs_put p (Some (Directory [])) t else t)"

text \<open>
  The rename(2) system call on canonical paths: the source exists, the parent of the target
  is a directory, neither lies inside the other, and an existing target is replaced only
  by a node of its kind (a directory only when it is empty).
\<close>
definition rename_ok :: "path \<Rightarrow> path \<Rightarrow> node \<Rightarrow> bool" where
  "rename_ok src dst t =
     (src \<noteq> [] \<and> fs_lookup src t \<noteq> None \<and>
      (src = dst \<or>
       (dst \<noteq> [] \<and> \<not> prefix src dst \<and> \<not> prefix dst src \<and>
        is_dir (fs_lookup (butlast dst) t) \<and>
        (case fs_lookup src t of
           None \<Rightarrow> False
         | Some (RegFile b) \<Rightarrow>
             (case fs_lookup dst t of Some (Directory es) \<Rightarrow> False | _ \<Rightarrow> True)
         | Some (Directory es) \<Rightarrow>
             (case fs_lookup dst t of None \<Rightarrow> True | Some (Directory ds) \<Rightarrow> ds = []
              | Some (RegFile b) \<Rightarrow> False)))))"

definition rename_at :: "path \<Rightarrow> path \<Rightarrow> node \<Rightarrow> node" where
  "rename_at src dst t =
     (if src = dst then t else fs_put dst (fs_lookup src t) (fs_put src None t))"

text \<open>
  A system call is given the names of a path as they are written and walks them one after
  the other: every name but the last is looked up, and must be found to be a directory;
  \<^verbatim>\<open>..\<close> leads from a directory to its parent. So \<^verbatim>\<open>/a/x/../b\<close> denotes \<^verbatim>\<open>/a/b\<close> when
  \<^verbatim>\<open>/a/x\<close> is a directory, and nothing when it is not. \<open>raw\<close> are the names of an
  absolute path.
\<close>
definition reachable :: "path \<Rightarrow> node \<Rightarrow> bool" where
  "reachable raw t = list_all (\<lambda>p. is_dir (fs_lookup (canon p) t)) (butlast (prefixes raw))"

definition walk :: "path \<Rightarrow> node \<Rightarrow> path option" where
  "walk raw t = (if reachable raw t then Some (canon raw) else None)"

text \<open>
  Deleting a tree from the leaves upwards: \<open>fails\<close> says at which paths the deletion of
  the node itself is refused; a directory that keeps an entry cannot be deleted either. The
  result is what is left of the node at \<open>p\<close>, \<open>None\<close> when nothing is.
\<close>
function prune :: "(path \<Rightarrow> bool) \<Rightarrow> path \<Rightarrow> node \<Rightarrow> node option" where
  "prune fails p (RegFile b) = (if fails p then Some (RegFile b) else None)"
| "prune fails p (Directory es) =
     (let kept = concat (map (\<lambda>e. case prune fails (p @ [fst e]) (snd e) of
                                     None \<Rightarrow> [] | Some c \<Rightarrow> [(fst e, c)])
                          (listEntries es))
      in if kept = [] \<and> \<not> fails p then None else Some (Directory kept))"
  by pat_completeness auto
termination
proof (relation "measure (\<lambda>(fails, p, n). size n)")
  show "wf (measure (\<lambda>(fails, p, n). size n))"
    by simp
next
  fix fails :: "path \<Rightarrow> bool" and p :: path and es and e :: "string \<times> node"
  assume e: "e \<in> set (listEntries es)"
  from e have "(fst e, snd e) \<in> Map.graph (map_of es)"
    by (simp add: listEntries_def AList.graph_map_of)
  then have "e \<in> set es"
    by (auto simp: Map.graph_def dest: map_of_SomeD)
  moreover have "size (snd e) < size_prod (\<lambda>x. 0) size e"
    by (cases e) simp
  ultimately have "size (snd e) < size_list (size_prod (\<lambda>x. 0) size) es"
    by (rule size_list_estimation)
  then show "((fails, p @ [fst e], snd e), (fails, p, Directory es))
               \<in> measure (\<lambda>(fails, p, n). size n)"
    by simp
qed

text \<open>The root directory itself is never removed.\<close>
definition remove_tree :: "(path \<Rightarrow> bool) \<Rightarrow> path \<Rightarrow> node \<Rightarrow> node" where
  "remove_tree fails p t =
     (case fs_lookup p t of
        None \<Rightarrow> t
      | Some n \<Rightarrow>
          if p = [] then (case prune (\<lambda>q. q = [] \<or> fails q) p n of Some r \<Rightarrow> r | None \<Rightarrow> t)
          else fs_put p (prune fails p n) t)"

section \<open>The host of the Android module\<close>

text \<open>
  Everything the module takes from its surroundings: the application directories of the
  React context, the working directory, the random and clock values it draws, whether the
  coroutine is still active when it starts and at each place the code polls \<^verbatim>\<open>isActive\<close>,
  the archive decoder (7-Zip-JBinding), and the faults the platform may inject into
  \<^verbatim>\<open>Files.move\<close>, \<^verbatim>\<open>File.renameTo\<close> and \<^verbatim>\<open>File.delete\<close>.
\<close>

datatype checkpoint =
  BeforeStart | BeforeStaging | AfterOpen | AtEntry nat | BeforeCommit | ConvertResult

datatype ExtractOperationResult =
  OK | UNSUPPORTEDMETHOD | DATAERROR | CRCERROR | UNAVAILABLE | UNEXPECTED_END
  | DATA_AFTER_END | IS_NOT_ARC | HEADERS_ERROR | WRONG_PASSWORD

text \<open>
  An \<^verbatim>\<open>ISimpleInArchiveItem\<close>: \<open>chunks\<close> are the byte arrays \<^verbatim>\<open>extractSlow\<close> hands to the
  sink, \<open>extractSlow\<close> its result (\<open>None\<close> when it raises).
\<close>
record item =
  isFolder :: bool
  item_path :: "string option"
  chunks :: "bytes list"
  extractSlow :: "ExtractOperationResult option"

datatype move_behaviour = MovePerformed | MoveUnsupported | MoveRaises

record host =
  filesDir :: jfile
  cacheDir :: jfile
  externalFilesDir :: "jfile option"
  userDir :: string
  tempRandomUUID :: "hex list"
  backupRandomUUID :: "hex list"
  currentTimeMillis :: nat
  isActive :: "checkpoint \<Rightarrow> bool"
  sevenZip :: "bytes \<Rightarrow> item list option"
  filesMove :: move_behaviour
  renameToFails :: "path \<Rightarrow> path \<Rightarrow> bool"
  deleteFails :: "path \<Rightarrow> bool"

text \<open>The two values of \<^verbatim>\<open>UUID.randomUUID()\<close> a request may draw, as strings.\<close>
definition tempUUID :: "host \<Rightarrow> string" where
  "tempUUID h = uuidString lowerHex (tempRandomUUID h)"

definition backupUUID :: "host \<Rightarrow> string" where
  "backupUUID h = uuidString lowerHex (backupRandomUUID h)"

definition getAbsoluteFile :: "host \<Rightarrow> jfile \<Rightarrow> jfile" where
  "getAbsoluteFile h f = (if isAbsolute f then f else File True (segments (userDir h) @ names f))"

definition getAbsolutePath :: "host \<Rightarrow> jfile \<Rightarrow> string" where
  "getAbsolutePath h f = getPath (getAbsoluteFile h f)"

definition getCanonicalFile :: "host \<Rightarrow> jfile \<Rightarrow> jfile" where
  "getCanonicalFile h f = File True (canon (names (getAbsoluteFile h f)))"

definition getCanonicalPath :: "host \<Rightarrow> jfile \<Rightarrow> string" where
  "getCanonicalPath h f = getPath (getCanonicalFile h f)"

text \<open>The names of the canonical file.\<close>
definition resolve :: "host \<Rightarrow> jfile \<Rightarrow> path" where
  "resolve h f = names (getCanonicalFile h f)"

text \<open>
  The node a \<^verbatim>\<open>File\<close> denotes when it is handed to the system: its absolute path is
  walked as it is written. Only \<^verbatim>\<open>getCanonicalFile\<close> resolves \<^verbatim>\<open>..\<close> by itself.
\<close>
definition locate :: "host \<Rightarrow> jfile \<Rightarrow> node \<Rightarrow> path option" where
  "locate h f t = walk (names (getAbsoluteFile h f)) t"

definition file_exists :: "host \<Rightarrow> jfile \<Rightarrow> node \<Rightarrow> bool" where
  "file_exists h f t = (case locate h f t of None \<Rightarrow> False | Some p \<Rightarrow> fs_lookup p t \<noteq> None)"

definition file_length :: "host \<Rightarrow> jfile \<Rightarrow> node \<Rightarrow> nat" where
  "file_length h f t =
     (case locate h f t of
        None \<Rightarrow> 0
      | Some p \<Rightarrow> (case fs_lookup p t of Some (RegFile b) \<Rightarrow> length b | _ \<Rightarrow> 0))"

text \<open>
  \<^verbatim>\<open>File.delete\<close> removes a regular file or an empty directory, nothing else, and may be
  refused; its result is never looked at.
\<close>
definition file_delete :: "host \<Rightarrow> jfile \<Rightarrow> node \<Rightarrow> node" where
  "file_delete h f t =
     (case locate h f t of
        None \<Rightarrow> t
      | Some p \<Rightarrow>
          if deleteFails h p then t
          else (case fs_lookup p t of
                  Some (RegFile b) \<Rightarrow> fs_put p None t
                | Some (Directory es) \<Rightarrow> (if es = [] then fs_put p None t else t)
                | None \<Rightarrow> t))"

text \<open>
  Kotlin's \<^verbatim>\<open>File.deleteRecursively\<close> walks the tree bottom-up and calls \<^verbatim>\<open>delete\<close> on
  every node; what cannot be deleted stays. Its result is never looked at.
\<close>
definition deleteRecursively :: "host \<Rightarrow> jfile \<Rightarrow> node \<Rightarrow> node" where
  "deleteRecursively h f t =
     (case locate h f t of None \<Rightarrow> t | Some p \<Rightarrow> remove_tree (deleteFails h) p t)"

text \<open>
  \<^verbatim>\<open>File.mkdirs\<close> answers false when the file exists; else it tries \<^verbatim>\<open>mkdir\<close> on the path
  as written; when that fails, it makes the parents of the canonical file, from the root
  downwards, and then the canonical file. In each case the directories missing on the
  canonical path are made as far as that is possible, and the answer is whether the
  canonical file has been made.
\<close>
definition mkdirs :: "host \<Rightarrow> jfile \<Rightarrow> node \<Rightarrow> bool \<times> node" where
  "mkdirs h f t =
     (if fs_lookup (resolve h f) t \<noteq> None then (False, t)
      else let t' = foldl (\<lambda>u q. mkdir_at q u) t (prefixes (resolve h f))
           in (is_dir (fs_lookup (resolve h f) t'), t'))"

definition renameTo :: "host \<Rightarrow> jfile \<Rightarrow> jfile \<Rightarrow> node \<Rightarrow> bool \<times> node" where
  "renameTo h src dst t =
     (case locate h src t of
        None \<Rightarrow> (False, t)
      | Some s \<Rightarrow>
          (case locate h dst t of
             None \<Rightarrow> (False, t)
           | Some d \<Rightarrow>
               if renameToFails h s d \<or> \<not> rename_ok s d t then (False, t)
               else (True, rename_at s d t)))"

text \<open>
  \<^verbatim>\<open>Files.move(source, dest, ATOMIC_MOVE, REPLACE_EXISTING)\<close>: \<open>None\<close> stands for either
  exception the caller catches.
\<close>
definition filesMoveAtomic :: "host \<Rightarrow> jfile \<Rightarrow> jfile \<Rightarrow> node \<Rightarrow> node option" where
  "filesMoveAtomic h src dst t =
     (case filesMove h of
        MoveUnsupported \<Rightarrow> None
      | MoveRaises \<Rightarrow> None
      | MovePerformed \<Rightarrow>
          (case locate h src t of
             None \<Rightarrow> None
           | Some s \<Rightarrow>
               (case locate h dst t of
                  None \<Rightarrow> None
                | Some d \<Rightarrow> if rename_ok s d t then Some (rename_at s d t) else None)))"

text \<open>
  The sink of \<^verbatim>\<open>extractSlow\<close>: the stream is opened (truncating) on the first chunk and
  every chunk is appended. Opening fails when the parent is no directory or the target is
  one; then nothing is written. Writes to an open stream are taken to succeed.
\<close>
definition openable :: "path \<Rightarrow> node \<Rightarrow> bool" where
  "openable p t = (p \<noteq> [] \<and> is_dir (fs_lookup (butlast p) t) \<and> \<not> is_dir (fs_lookup p t))"

definition writeChunks :: "host \<Rightarrow> jfile \<Rightarrow> bytes list \<Rightarrow> node \<Rightarrow> node" where
  "writeChunks h f cs t =
     (if cs = [] then t
      else (case locate h f t of
              None \<Rightarrow> t
            | Some p \<Rightarrow> if openable p t then fs_put p (Some (RegFile (concat cs))) t else t))"

section \<open>The Android module \<^verbatim>\<open>UnarchiveModule\<close>\<close>

datatype reject_code =
  UNARCHIVE_BUSY | UNARCHIVE_INVALID_PATH | FILE_NOT_FOUND | UNARCHIVE_CANCELLED
  | TEMP_DIR_CREATION_FAILED | UNARCHIVE_ENTRY_INVALID | ATOMIC_MOVE_FAILED | EXTRACTION_ERROR
  | DIRECTORY_ERROR | UNSUPPORTED_FORMAT | ARCHIVE_ERROR | LIST_ERROR | UNSAFE_PATH
  | ATOMIC_REPLACE_ERROR

record ExtractedFileInfo =
  path :: string
  name :: string
  relativePath :: string
  size_bytes :: nat

text \<open>How the promise of one call is settled.\<close>
datatype outcome = Resolve "ExtractedFileInfo list" string | Reject reject_code

definition filterNotNull :: "'a option list \<Rightarrow> 'a list" where
  "filterNotNull xs = concat (map (\<lambda>x. case x of None \<Rightarrow> [] | Some y \<Rightarrow> [y]) xs)"

text \<open>\<^verbatim>\<open>isPathAllowed\<close>: \<^verbatim>\<open>startsWith\<close> is the prefix order on strings.\<close>
definition isPathAllowed :: "host \<Rightarrow> string \<Rightarrow> bool" where
  "isPathAllowed h p =
     (let file = getCanonicalFile h (newFile p);
          canonicalPath = getPath file;
          allowedRoots = filterNotNull
            [Some (getCanonicalPath h (filesDir h)),
             Some (getCanonicalPath h (cacheDir h)),
             map_option (getCanonicalPath h) (externalFilesDir h)]
      in list_ex (\<lambda>root. prefix root canonicalPath) allowedRoots)"

text \<open>\<^verbatim>\<open>isSafeEntryPath\<close>: \<open>None\<close> is the Kotlin \<^verbatim>\<open>null\<close>.\<close>
definition isSafeEntryPath :: "host \<Rightarrow> string \<Rightarrow> jfile \<Rightarrow> jfile option" where
  "isSafeEntryPath h entryPath tempDir =
     (let destFile = getCanonicalFile h (newFileIn (Some tempDir) entryPath);
          tempDirCanonical = getCanonicalPath h tempDir @ ''/''
      in if \<not> prefix tempDirCanonical (getPath destFile) then None else Some destFile)"

text \<open>\<^verbatim>\<open>atomicMoveOrFallback\<close>.\<close>
definition atomicMoveOrFallback :: "host \<Rightarrow> jfile \<Rightarrow> jfile \<Rightarrow> node \<Rightarrow> bool \<times> node" where
  "atomicMoveOrFallback h source dest t =
     (case filesMoveAtomic h source dest t of
        Some t' \<Rightarrow> (True, t')
      | None \<Rightarrow>
          let backupFile =
                (if file_exists h dest t
                 then Some (newFileIn (getParentFile dest)
                              (getName dest @ ''.backup.'' @ backupUUID h))
                 else None);
              (backedUp, t1) =
                (case backupFile of
                   Some b \<Rightarrow> (if file_exists h dest t then renameTo h dest b t else (True, t))
                 | None \<Rightarrow> (True, t))
          in if \<not> backedUp then (False, t1)
             else (case renameTo h source dest t1 of
                     (False, t2) \<Rightarrow>
                       (False,
                        (case backupFile of
                           Some b \<Rightarrow>
                             (if file_exists h b t2 then snd (renameTo h b dest t2) else t2)
                         | None \<Rightarrow> t2))
                   | (True, t2) \<Rightarrow>
                       (True, (case backupFile of Some b \<Rightarrow> file_delete h b t2 | None \<Rightarrow> t2))))"

text \<open>
  The body of the loop for an item that is not a folder, after the sanitizer has accepted
  it: make the parents, clear the target, run \<^verbatim>\<open>extractSlow\<close>, then verify.
\<close>
definition writeEntry ::
  "host \<Rightarrow> jfile \<Rightarrow> jfile \<Rightarrow> item \<Rightarrow> node \<times> ExtractedFileInfo list
     \<Rightarrow> node \<times> ExtractedFileInfo list" where
  "writeEntry h tempDir outputFile it s =
     (let t1 = (case getParentFile outputFile of
                  Some pf \<Rightarrow> snd (mkdirs h pf (fst s)) | None \<Rightarrow> fst s);
          t2 = (if file_exists h outputFile t1 then file_delete h outputFile t1 else t1);
          t3 = writeChunks h outputFile (chunks it) t2;
          cleaned = (if file_exists h outputFile t3 then file_delete h outputFile t3 else t3)
      in case extractSlow it of
           None \<Rightarrow> (cleaned, snd s)
         | Some extractResult \<Rightarrow>
             if extractResult = OK \<and> file_exists h outputFile t3
                \<and> file_length h outputFile t3 > 0
             then (case relativize tempDir outputFile of
                     None \<Rightarrow> (cleaned, snd s)
                   | Some rel \<Rightarrow>
                       (t3, snd s @
                          [\<lparr>path = getAbsolutePath h outputFile, name = getName outputFile,
                            relativePath = rel, size_bytes = file_length h outputFile t3\<rparr>]))
             else ((if file_exists h outputFile t3 \<and> file_length h outputFile t3 = 0
                    then file_delete h outputFile t3 else t3), snd s))"

text \<open>\<^verbatim>\<open>item.path ?: "unknown_file_$index"\<close>.\<close>
definition itemPath :: "nat \<Rightarrow> item \<Rightarrow> string" where
  "itemPath index it =
     (case item_path it of Some p \<Rightarrow> p | None \<Rightarrow> ''unknown_file_'' @ show_nat index)"

text \<open>One turn of the loop for an item that is not a folder; \<open>None\<close> when it is unsafe.\<close>
definition extractEntry ::
  "host \<Rightarrow> jfile \<Rightarrow> nat \<Rightarrow> item \<Rightarrow> node \<times> ExtractedFileInfo list
     \<Rightarrow> (node \<times> ExtractedFileInfo list) option" where
  "extractEntry h tempDir index it s =
     (case isSafeEntryPath h (itemPath index it) tempDir of
        None \<Rightarrow> None
      | Some outputFile \<Rightarrow> Some (writeEntry h tempDir outputFile it s))"

datatype loop_exit = Completed | Aborted reject_code

text \<open>The loop \<^verbatim>\<open>for ((index, item) in items.withIndex())\<close>.\<close>
fun extractItems ::
  "host \<Rightarrow> jfile \<Rightarrow> nat \<Rightarrow> item list \<Rightarrow> node \<times> ExtractedFileInfo list
     \<Rightarrow> loop_exit \<times> node \<times> ExtractedFileInfo list" where
  "extractItems h tempDir index [] s = (Completed, s)"
| "extractItems h tempDir index (it # rest) s =
     (if \<not> isActive h (AtEntry index) then (Aborted UNARCHIVE_CANCELLED, s)
      else if isFolder it then extractItems h tempDir (Suc index) rest s
      else (case extractEntry h tempDir index it s of
              None \<Rightarrow> (Aborted UNARCHIVE_ENTRY_INVALID, s)
            | Some s' \<Rightarrow> extractItems h tempDir (Suc index) rest s'))"

text \<open>
  \<^verbatim>\<open>enumerateFiles\<close>, on the node the directory denotes; \<open>None\<close> when \<^verbatim>\<open>relativize\<close>
  raises. \<^verbatim>\<open>listFiles\<close> is \<^verbatim>\<open>null\<close> for anything but a directory.
\<close>
function enumerateNode ::
  "host \<Rightarrow> jfile \<Rightarrow> jfile \<Rightarrow> node \<Rightarrow> ExtractedFileInfo list option" where
  "enumerateNode h dir baseDir (RegFile b) = Some []"
| "enumerateNode h dir baseDir (Directory es) =
     map_option concat (those (map (\<lambda>e.
        (let file = File (isAbsolute dir) (names dir @ [fst e]) in
         case snd e of
           Directory cs \<Rightarrow> enumerateNode h file baseDir (snd e)
         | RegFile b \<Rightarrow>
             map_option (\<lambda>rel.
               [\<lparr>path = getAbsolutePath h file, name = getName file,
                 relativePath = rel, size_bytes = length b\<rparr>])
               (relativize baseDir file))) (listEntries es)))"
  by pat_completeness auto
termination
proof (relation "measure (\<lambda>(h, dir, baseDir, n). size n)")
  show "wf (measure (\<lambda>(h, dir, baseDir, n). size n))"
    by simp
next
  fix h :: host and dir baseDir f :: jfile and es e cs
  assume e: "e \<in> set (listEntries es)" and "snd e = Directory cs"
  from e have "(fst e, snd e) \<in> Map.graph (map_of es)"
    by (simp add: listEntries_def AList.graph_map_of)
  then have "e \<in> set es"
    by (auto simp: Map.graph_def dest: map_of_SomeD)
  moreover have "size (snd e) < size_prod (\<lambda>x. 0) size e"
    by (cases e) simp
  ultimately have "size (snd e) < size_list (size_prod (\<lambda>x. 0) size) es"
    by (rule size_list_estimation)
  then show "((h, f, baseDir, snd e), (h, dir, baseDir, Directory es))
               \<in> measure (\<lambda>(h, dir, baseDir, n). size n)"
    by simp
qed

definition enumerateFiles ::
  "host \<Rightarrow> jfile \<Rightarrow> jfile \<Rightarrow> node \<Rightarrow> ExtractedFileInfo list option" where
  "enumerateFiles h dir baseDir t =
     (case locate h dir t of
        None \<Rightarrow> Some []
      | Some p \<Rightarrow>
          (case fs_lookup p t of
             Some n \<Rightarrow> enumerateNode h dir baseDir n
           | None \<Rightarrow> Some []))"

text \<open>
  \<^verbatim>\<open>RandomAccessFile(archiveFile, "r")\<close> followed by \<^verbatim>\<open>SevenZip.openInArchive\<close>; \<open>None\<close>
  when either raises.
\<close>
definition openInArchive :: "host \<Rightarrow> jfile \<Rightarrow> node \<Rightarrow> item list option" where
  "openInArchive h archiveFile t =
     (case locate h archiveFile t of
        None \<Rightarrow> None
      | Some p \<Rightarrow> (case fs_lookup p t of Some (RegFile b) \<Rightarrow> sevenZip h b | _ \<Rightarrow> None))"

definition tempDirName :: "host \<Rightarrow> string" where
  "tempDirName h = ''unarchive_temp_'' @ tempUUID h @ ''_'' @ show_nat (currentTimeMillis h)"

definition stagingDir :: "host \<Rightarrow> string \<Rightarrow> jfile" where
  "stagingDir h outputPath = newFileIn (getParentFile (newFile outputPath)) (tempDirName h)"

text \<open>
  The end of the \<^verbatim>\<open>try\<close> block, from the last cancellation check on: the destination
  is removed, the staging directory is moved into its place, and the files found there are
  listed. \<^verbatim>\<open>withContext(Dispatchers.Main)\<close> raises when the coroutine has been cancelled,
  which the outer \<^verbatim>\<open>catch\<close> turns into \<^verbatim>\<open>EXTRACTION_ERROR\<close>.
\<close>
definition commitStaging :: "host \<Rightarrow> string \<Rightarrow> jfile \<Rightarrow> node \<Rightarrow> outcome \<times> node" where
  "commitStaging h outputPath tempDir t2 =
     (let outputDir = newFile outputPath in
      if \<not> isActive h BeforeCommit then (Reject UNARCHIVE_CANCELLED, t2)
      else
        let t3 = (if file_exists h outputDir t2 then deleteRecursively h outputDir t2 else t2)
        in case atomicMoveOrFallback h tempDir outputDir t3 of
             (False, t4) \<Rightarrow> (Reject ATOMIC_MOVE_FAILED, t4)
           | (True, t4) \<Rightarrow>
               (case enumerateFiles h outputDir outputDir t4 of
                  None \<Rightarrow> (Reject EXTRACTION_ERROR, t4)
                | Some finalFilesList \<Rightarrow>
                    if \<not> isActive h ConvertResult then (Reject EXTRACTION_ERROR, t4)
                    else (Resolve finalFilesList outputPath, t4)))"

text \<open>
  The \<^verbatim>\<open>try\<close> block of the coroutine: the settlement of the promise, the disk it leaves
  and the value of the variable \<^verbatim>\<open>tempDir\<close> when the block is left.
\<close>
definition extraction_try ::
  "host \<Rightarrow> string \<Rightarrow> string \<Rightarrow> node \<Rightarrow> outcome \<times> node \<times> jfile option" where
  "extraction_try h archivePath outputPath t =
     (let archiveFile = newFile archivePath in
      if \<not> file_exists h archiveFile t then (Reject FILE_NOT_FOUND, t, None)
      else if \<not> isActive h BeforeStaging then (Reject UNARCHIVE_CANCELLED, t, None)
      else
        let tempDir = stagingDir h outputPath
        in case mkdirs h tempDir t of
             (False, t1) \<Rightarrow> (Reject TEMP_DIR_CREATION_FAILED, t1, Some tempDir)
           | (True, t1) \<Rightarrow>
               (case openInArchive h archiveFile t1 of
                  None \<Rightarrow> (Reject EXTRACTION_ERROR, t1, Some tempDir)
                | Some items \<Rightarrow>
                    if \<not> isActive h AfterOpen
                    then (Reject UNARCHIVE_CANCELLED, t1, Some tempDir)
                    else
                      (case extractItems h tempDir 0 items (t1, []) of
                         (Aborted code, t2, extractedFilesList) \<Rightarrow>
                           (Reject code, t2, Some tempDir)
                       | (Completed, t2, extractedFilesList) \<Rightarrow>
                           (case commitStaging h outputPath tempDir t2 of
                              (result, t4) \<Rightarrow> (result, t4, Some tempDir)))))"

text \<open>The module: its two atomics and the disk it works on.\<close>
record module_state =
  activeExtraction :: bool
  currentJobRef :: bool
  disk :: node

text \<open>
  The block of the coroutine: the \<^verbatim>\<open>try\<close> block, then the \<^verbatim>\<open>finally\<close> block.
\<close>
definition extraction_job ::
  "host \<Rightarrow> string \<Rightarrow> string \<Rightarrow> module_state \<Rightarrow> outcome \<times> module_state" where
  "extraction_job h archivePath outputPath st =
     (case extraction_try h archivePath outputPath (disk st) of
        (result, t, tempDir) \<Rightarrow>
          (result,
           st\<lparr>disk := (case tempDir of
                          Some d \<Rightarrow> (if file_exists h d t then deleteRecursively h d t else t)
                        | None \<Rightarrow> t),
              activeExtraction := False,
              currentJobRef := False\<rparr>))"

text \<open>
  \<^verbatim>\<open>CoroutineScope(Dispatchers.IO).launch { ... }\<close> with the default start: the block is
  dispatched, and runs when a thread takes it up. A coroutine that has been cancelled by
  then (\<^verbatim>\<open>cancelUnarchive\<close> calls \<^verbatim>\<open>job.cancel()\<close>) completes without running anything of
  its block, the \<^verbatim>\<open>finally\<close> block included. \<open>None\<close>: the promise is never settled.
\<close>
definition launch ::
  "host \<Rightarrow> string \<Rightarrow> string \<Rightarrow> module_state \<Rightarrow> outcome option \<times> module_state" where
  "launch h archivePath outputPath st =
     (if \<not> isActive h BeforeStart then (None, st)
      else (case extraction_job h archivePath outputPath st of
              (result, st') \<Rightarrow> (Some result, st')))"

text \<open>
  The synchronous part of \<^verbatim>\<open>unarchive\<close>: either the promise is rejected at once, or the
  coroutine is launched and its reference stored.
\<close>
datatype admission = RejectedAtOnce reject_code | Launched

definition unarchive :: "host \<Rightarrow> string \<Rightarrow> string \<Rightarrow> module_state \<Rightarrow> admission \<times> module_state" where
  "unarchive h archivePath outputPath st =
     (if activeExtraction st then (RejectedAtOnce UNARCHIVE_BUSY, st)
      else
        let st1 = st\<lparr>activeExtraction := True\<rparr> in
        if \<not> isPathAllowed h outputPath
        then (RejectedAtOnce UNARCHIVE_INVALID_PATH, st1\<lparr>activeExtraction := False\<rparr>)
        else (Launched, st1\<lparr>currentJobRef := True\<rparr>))"

section \<open>The iOS module \<^verbatim>\<open>Unarchive.mm\<close>\<close>

text \<open>
  The module as \<^verbatim>\<open>README.md\<close> lists it in full (lines 514 to 1402, \<^verbatim>\<open>@implementation
  Unarchive\<close>): the engine with the busy flag, the staging directory beside the output
  directory and the recursive listing. The iOS engine works on path strings. \<^verbatim>\<open>NSFileManager\<close> hands a path to the system as it
  is written, a relative one from the current directory. Its collaborators are the
  directories of the application's container, the random and clock values it draws, the
  value of \<^verbatim>\<open>_cancellationRequested\<close> at each place the code loads it, the two archive
  libraries (SSZipArchive and UnrarKit, which read and write the disk themselves),
  \<^verbatim>\<open>stringByStandardizingPath\<close>, and the faults the platform may inject into the removal,
  the replacement and the move of an item.
\<close>

datatype ios_checkpoint =
  AfterTempDirectory | AfterOpeningArchive | BeforeValidation | BeforeExtraction
  | AfterExtraction | AfterEnumeration

record ios_host =
  currentDirectoryPath :: string
  documentsPath :: string
  cachesPath :: string
  temporaryDirectory :: string
  randomUUID :: "hex list"
  timeIntervalSince1970 :: nat
  cancellationRequested :: "ios_checkpoint \<Rightarrow> bool"
  stringByStandardizingPath :: "string \<Rightarrow> string"
  unzipFileAtPath :: "path \<Rightarrow> path \<Rightarrow> node \<Rightarrow> bool \<times> node"
  urkInitWithPath :: "path \<Rightarrow> node \<Rightarrow> bool"
  urkListFilenames :: "path \<Rightarrow> node \<Rightarrow> string list option"
  urkExtractFilesTo :: "path \<Rightarrow> path \<Rightarrow> node \<Rightarrow> bool \<times> node"
  removeItemFails :: "path \<Rightarrow> bool"
  replaceItemFails :: "path \<Rightarrow> path \<Rightarrow> bool"
  moveItemFails :: "path \<Rightarrow> path \<Rightarrow> bool"

datatype plist_value = Str string | Num nat

type_synonym file_dict = "(string \<times> plist_value) list"

datatype ios_outcome = IosResolve "file_dict list" string | IosReject reject_code

text \<open>The instance variables of the module, and the disk it works on.\<close>
record ios_state =
  ios_activeExtraction :: bool
  currentTempPath :: "string option"
  ios_disk :: node

subsection \<open>Path strings\<close>

definition isAbsolutePath :: "string \<Rightarrow> bool" where
  "isAbsolutePath s = (case s of [] \<Rightarrow> False | c # _ \<Rightarrow> c = CHR ''/'')"

definition lastPathComponent :: "string \<Rightarrow> string" where
  "lastPathComponent s =
     (if segments s = [] then (if s = [] then [] else ''/'') else last (segments s))"

definition stringByDeletingLastPathComponent :: "string \<Rightarrow> string" where
  "stringByDeletingLastPathComponent s =
     (if isAbsolutePath s then ''/'' else []) @ joinPath (butlast (segments s))"

definition stringByAppendingPathComponent :: "string \<Rightarrow> string \<Rightarrow> string" where
  "stringByAppendingPathComponent s c =
     (if isAbsolutePath s then ''/'' else []) @ joinPath (segments s @ segments c)"

text \<open>The characters after the last dot of the last component; a leading dot does not count.\<close>
definition pathExtension :: "string \<Rightarrow> string" where
  "pathExtension s =
     (let c = lastPathComponent s;
          ext = rev (takeWhile (\<lambda>x. x \<noteq> CHR ''.'') (rev c))
      in if CHR ''.'' \<in> set c \<and> length ext + 1 \<noteq> length c then ext else [])"

definition lowercaseChar :: "char \<Rightarrow> char" where
  "lowercaseChar c =
     (if 65 \<le> (of_char c :: nat) \<and> (of_char c :: nat) \<le> 90
      then char_of ((of_char c :: nat) + 32) else c)"

definition lowercaseString :: "string \<Rightarrow> string" where
  "lowercaseString s = map lowercaseChar s"

text \<open>The names of the absolute path a path string stands for.\<close>
definition ns_names :: "ios_host \<Rightarrow> string \<Rightarrow> path" where
  "ns_names ih s =
     (if isAbsolutePath s then [] else segments (currentDirectoryPath ih)) @ segments s"

text \<open>
  \<^verbatim>\<open>[[NSURL fileURLWithPath:s] URLByStandardizingPath].path\<close>, also after
  \<^verbatim>\<open>URLByResolvingSymlinksInPath\<close>: on a file system without symbolic links, the lexical
  resolution of \<^verbatim>\<open>.\<close> and \<^verbatim>\<open>..\<close> in the absolute path.
\<close>
definition standardizedPath :: "ios_host \<Rightarrow> string \<Rightarrow> string" where
  "standardizedPath ih s = ''/'' @ joinPath (canon (ns_names ih s))"

subsection \<open>\<^verbatim>\<open>NSFileManager\<close>\<close>

text \<open>The node a path string denotes when it is handed to the system.\<close>
definition ns_locate :: "ios_host \<Rightarrow> string \<Rightarrow> node \<Rightarrow> path option" where
  "ns_locate ih s t = (if s = [] then None else walk (ns_names ih s) t)"

definition fileExistsAtPath :: "ios_host \<Rightarrow> string \<Rightarrow> node \<Rightarrow> bool" where
  "fileExistsAtPath ih s t =
     (case ns_locate ih s t of None \<Rightarrow> False | Some p \<Rightarrow> fs_lookup p t \<noteq> None)"

text \<open>
  \<^verbatim>\<open>createDirectoryAtPath:withIntermediateDirectories:YES\<close> walks the names of the path and
  makes every directory it does not find; it answers \<^verbatim>\<open>YES\<close> when the directory is there
  in the end. \<open>cur\<close> is where the walk stands, \<open>ns\<close> the names still to go.
\<close>
fun makePath :: "path \<Rightarrow> path \<Rightarrow> node \<Rightarrow> bool \<times> node" where
  "makePath cur [] t = (is_dir (fs_lookup cur t), t)"
| "makePath cur (n # ns) t =
     (if \<not> is_dir (fs_lookup cur t) then (False, t)
      else makePath (canon (cur @ [n])) ns (mkdir_at (canon (cur @ [n])) t))"

definition createDirectoryAtPath :: "ios_host \<Rightarrow> string \<Rightarrow> node \<Rightarrow> bool \<times> node" where
  "createDirectoryAtPath ih s t = (if s = [] then (False, t) else makePath [] (ns_names ih s) t)"

text \<open>
  \<^verbatim>\<open>removeItemAtPath:error:nil\<close> removes a file, or a directory with all it holds; what
  cannot be removed stays. Its result is never looked at.
\<close>
definition removeItemAtPath :: "ios_host \<Rightarrow> string \<Rightarrow> node \<Rightarrow> node" where
  "removeItemAtPath ih s t =
     (case ns_locate ih s t of None \<Rightarrow> t | Some p \<Rightarrow> remove_tree (removeItemFails ih) p t)"

text \<open>
  \<^verbatim>\<open>replaceItemAtURL:withItemAtURL:\<close> puts the new item in the place of the original one,
  and \<^verbatim>\<open>moveItemAtURL:toURL:\<close> moves an item to a name that is free; a call that fails
  is taken to change nothing.
\<close>
definition replace_ok :: "path \<Rightarrow> path \<Rightarrow> node \<Rightarrow> bool" where
  "replace_ok new original t =
     (new \<noteq> [] \<and> original \<noteq> [] \<and> fs_lookup new t \<noteq> None \<and> fs_lookup original t \<noteq> None \<and>
      \<not> prefix new original \<and> \<not> prefix original new)"

definition replaceItemAtURL :: "ios_host \<Rightarrow> string \<Rightarrow> string \<Rightarrow> node \<Rightarrow> bool \<times> node" where
  "replaceItemAtURL ih original new t =
     (case ns_locate ih original t of
        None \<Rightarrow> (False, t)
      | Some q \<Rightarrow>
          (case ns_locate ih new t of
             None \<Rightarrow> (False, t)
           | Some p \<Rightarrow>
               if replaceItemFails ih q p \<or> \<not> replace_ok p q t then (False, t)
               else (True, fs_put q (fs_lookup p t) (fs_put p None t))))"

definition move_ok :: "path \<Rightarrow> path \<Rightarrow> node \<Rightarrow> bool" where
  "move_ok src dst t =
     (src \<noteq> [] \<and> dst \<noteq> [] \<and> fs_lookup src t \<noteq> None \<and> fs_lookup dst t = None \<and>
      is_dir (fs_lookup (butlast dst) t) \<and> \<not> prefix src dst)"

definition moveItemAtURL :: "ios_host \<Rightarrow> string \<Rightarrow> string \<Rightarrow> node \<Rightarrow> bool \<times> node" where
  "moveItemAtURL ih src dst t =
     (case ns_locate ih src t of
        None \<Rightarrow> (False, t)
      | Some p \<Rightarrow>
          (case ns_locate ih dst t of
             None \<Rightarrow> (False, t)
           | Some q \<Rightarrow>
               if moveItemFails ih p q \<or> \<not> move_ok p q t then (False, t)
               else (True, fs_put q (fs_lookup p t) (fs_put p None t))))"

text \<open>
  \<^verbatim>\<open>NSDirectoryEnumerator\<close>: everything below a directory, a directory before what it
  holds, each with its names relative to the directory enumerated.
\<close>
function descendants :: "node \<Rightarrow> (path \<times> node) list" where
  "descendants (RegFile b) = []"
| "descendants (Directory es) =
     concat (map (\<lambda>e. ([fst e], snd e) # map (\<lambda>d. (fst e # fst d, snd d)) (descendants (snd e)))
               (listEntries es))"
  by pat_completeness auto
termination
proof (relation "measure size")
  show "wf (measure size)"
    by simp
next
  fix es and e :: "string \<times> node"
  assume e: "e \<in> set (listEntries es)"
  from e have "(fst e, snd e) \<in> Map.graph (map_of es)"
    by (simp add: listEntries_def AList.graph_map_of)
  then have "e \<in> set es"
    by (auto simp: Map.graph_def dest: map_of_SomeD)
  moreover have "size (snd e) < size_prod (\<lambda>x. 0) size e"
    by (cases e) simp
  ultimately have "size (snd e) < size_list (size_prod (\<lambda>x. 0) size) es"
    by (rule size_list_estimation)
  then show "(snd e, Directory es) \<in> measure size"
    by simp
qed

subsection \<open>The engine\<close>

text \<open>\<^verbatim>\<open>isOutputPathInSandbox\<close>: \<^verbatim>\<open>hasPrefix\<close> is the prefix order on strings.\<close>
definition isOutputPathInSandbox :: "ios_host \<Rightarrow> string \<Rightarrow> bool" where
  "isOutputPathInSandbox ih outputPath =
     (let canonicalOutput = standardizedPath ih outputPath;
          canonicalDocuments = standardizedPath ih (documentsPath ih);
          canonicalCaches = standardizedPath ih (cachesPath ih);
          canonicalTmp = standardizedPath ih (temporaryDirectory ih);
          isInDocuments = prefix canonicalDocuments canonicalOutput;
          isInCaches = prefix canonicalCaches canonicalOutput;
          isInTmp = prefix canonicalTmp canonicalOutput
      in isInDocuments \<or> isInCaches \<or> isInTmp)"

text \<open>The loop of \<^verbatim>\<open>isSafePath\<close> that drops leading \<^verbatim>\<open>/\<close> and \<^verbatim>\<open>../\<close>.\<close>
function stripLeading :: "string \<Rightarrow> string" where
  "stripLeading s =
     (if prefix ''/'' s then stripLeading (drop 1 s)
      else if prefix ''../'' s then stripLeading (drop 3 s)
      else s)"
  by pat_completeness auto
termination
  by (relation "measure length") (auto simp: prefix_def)

declare stripLeading.simps [simp del]

text \<open>\<^verbatim>\<open>isSafePath:withinBaseURL:\<close>, for the base URL of the path \<open>basePath\<close>.\<close>
definition isSafePath :: "ios_host \<Rightarrow> string \<Rightarrow> string \<Rightarrow> bool" where
  "isSafePath ih entryPath basePath =
     (let normalizedEntry = stripLeading (stringByStandardizingPath ih entryPath);
          destPath = ''/'' @ joinPath (canon (ns_names ih basePath @ segments normalizedEntry));
          basePath' = standardizedPath ih basePath
      in prefix basePath' destPath)"

text \<open>
  \<^verbatim>\<open>enumerateFilesRecursively\<close>. The enumerator hands out the relative path of every node
  below the directory; the full path built from it denotes that node, whose kind and size
  are then read. A node that is not a directory gets a dictionary.
\<close>
definition enumerateFilesRecursively ::
  "ios_host \<Rightarrow> string \<Rightarrow> string \<Rightarrow> node \<Rightarrow> file_dict list" where
  "enumerateFilesRecursively ih directoryPath baseDirectory t =
     (case ns_locate ih directoryPath t of
        None \<Rightarrow> []
      | Some p \<Rightarrow>
          (case fs_lookup p t of
             None \<Rightarrow> []
           | Some n \<Rightarrow>
               concat (map (\<lambda>d.
                 (let relativePath = joinPath (fst d) in
                  case snd d of
                    Directory cs \<Rightarrow> []
                  | RegFile b \<Rightarrow>
                      [[(''path'', Str (stringByAppendingPathComponent baseDirectory relativePath)),
                        (''name'', Str (lastPathComponent relativePath)),
                        (''relativePath'', Str relativePath),
                        (''size'', Num (length b))]])) (descendants n))))"

text \<open>
  The check after \<^verbatim>\<open>SSZipArchive\<close> has run: whether something below the staging
  directory has a standardized path that does not start with that of the directory.
\<close>
definition escapedTempDirectory :: "ios_host \<Rightarrow> string \<Rightarrow> node \<Rightarrow> bool" where
  "escapedTempDirectory ih tempPath t =
     (case ns_locate ih tempPath t of
        None \<Rightarrow> False
      | Some p \<Rightarrow>
          (case fs_lookup p t of
             None \<Rightarrow> False
           | Some n \<Rightarrow>
               list_ex (\<lambda>d. \<not> prefix (standardizedPath ih tempPath)
                                (''/'' @ joinPath (canon (ns_names ih tempPath @ fst d))))
                 (descendants n)))"

text \<open>
  The end of both extraction methods: the staging directory takes the place of the output
  directory, or is moved to its name when that is free.
\<close>
definition atomicReplace :: "ios_host \<Rightarrow> string \<Rightarrow> string \<Rightarrow> node \<Rightarrow> bool \<times> node" where
  "atomicReplace ih tempPath outputPath t =
     (if fileExistsAtPath ih outputPath t then replaceItemAtURL ih outputPath tempPath t
      else moveItemAtURL ih tempPath outputPath t)"

text \<open>
  What both methods do once the files are in the staging directory. The error variable of
  \<^verbatim>\<open>enumerateFilesRecursively\<close> is never set.
\<close>
definition listAndCommit :: "ios_host \<Rightarrow> string \<Rightarrow> string \<Rightarrow> node \<Rightarrow> ios_outcome \<times> node" where
  "listAndCommit ih tempPath outputPath t =
     (let extractedFiles = enumerateFilesRecursively ih tempPath outputPath t in
      if extractedFiles = [] then (IosReject LIST_ERROR, removeItemAtPath ih tempPath t)
      else if cancellationRequested ih AfterEnumeration
      then (IosReject UNARCHIVE_CANCELLED, removeItemAtPath ih tempPath t)
      else (case atomicReplace ih tempPath outputPath t of
              (True, t') \<Rightarrow> (IosResolve extractedFiles outputPath, t')
            | (False, t') \<Rightarrow> (IosReject ATOMIC_REPLACE_ERROR, removeItemAtPath ih tempPath t')))"

text \<open>\<^verbatim>\<open>extractCBRFile\<close>: the promise's settlement and the disk the method leaves.\<close>
definition extractCBRFile ::
  "ios_host \<Rightarrow> string \<Rightarrow> string \<Rightarrow> string \<Rightarrow> node \<Rightarrow> ios_outcome \<times> node" where
  "extractCBRFile ih archivePath tempPath outputPath t =
     (if \<not> urkInitWithPath ih (ns_names ih archivePath) t
      then (IosReject ARCHIVE_ERROR, removeItemAtPath ih tempPath t)
      else if cancellationRequested ih AfterOpeningArchive
      then (IosReject UNARCHIVE_CANCELLED, removeItemAtPath ih tempPath t)
      else
        (case urkListFilenames ih (ns_names ih archivePath) t of
           None \<Rightarrow> (IosReject LIST_ERROR, removeItemAtPath ih tempPath t)
         | Some filenames \<Rightarrow>
             if cancellationRequested ih BeforeValidation
             then (IosReject UNARCHIVE_CANCELLED, removeItemAtPath ih tempPath t)
             else if list_ex (\<lambda>entryPath. \<not> isSafePath ih entryPath tempPath) filenames
             then (IosReject UNSAFE_PATH, removeItemAtPath ih tempPath t)
             else if cancellationRequested ih BeforeExtraction
             then (IosReject UNARCHIVE_CANCELLED, removeItemAtPath ih tempPath t)
             else
               (case urkExtractFilesTo ih (ns_names ih archivePath) (ns_names ih tempPath) t of
                  (False, t1) \<Rightarrow> (IosReject EXTRACTION_ERROR, removeItemAtPath ih tempPath t1)
                | (True, t1) \<Rightarrow> listAndCommit ih tempPath outputPath t1)))"

text \<open>\<^verbatim>\<open>extractCBZFile\<close>.\<close>
definition extractCBZFile ::
  "ios_host \<Rightarrow> string \<Rightarrow> string \<Rightarrow> string \<Rightarrow> node \<Rightarrow> ios_outcome \<times> node" where
  "extractCBZFile ih archivePath tempPath outputPath t =
     (case unzipFileAtPath ih (ns_names ih archivePath) (ns_names ih tempPath) t of
        (False, t1) \<Rightarrow> (IosReject EXTRACTION_ERROR, removeItemAtPath ih tempPath t1)
      | (True, t1) \<Rightarrow>
          if cancellationRequested ih AfterExtraction
          then (IosReject UNARCHIVE_CANCELLED, removeItemAtPath ih tempPath t1)
          else if escapedTempDirectory ih tempPath t1
          then (IosReject UNSAFE_PATH, removeItemAtPath ih tempPath t1)
          else listAndCommit ih tempPath outputPath t1)"

definition ios_tempDirName :: "ios_host \<Rightarrow> string" where
  "ios_tempDirName ih =
     ''.unarchive_temp_'' @ uuidString upperHex (randomUUID ih) @ ''_''
       @ show_nat (timeIntervalSince1970 ih)"

definition ios_tempPath :: "ios_host \<Rightarrow> string \<Rightarrow> string" where
  "ios_tempPath ih outputPath =
     stringByAppendingPathComponent (stringByDeletingLastPathComponent outputPath)
       (ios_tempDirName ih)"

text \<open>
  The block \<^verbatim>\<open>unarchive:outputPath:resolve:reject:\<close> dispatches to the global queue. Every
  path through it, and through the two extraction methods, ends by clearing
  \<^verbatim>\<open>_activeExtraction\<close> and, once the staging path is known, \<^verbatim>\<open>_currentTempPath\<close>.
\<close>
definition unarchive_block ::
  "ios_host \<Rightarrow> string \<Rightarrow> string \<Rightarrow> ios_state \<Rightarrow> ios_outcome \<times> ios_state" where
  "unarchive_block ih archivePath outputPath st =
     (if \<not> fileExistsAtPath ih archivePath (ios_disk st)
      then (IosReject FILE_NOT_FOUND, st\<lparr>ios_activeExtraction := False\<rparr>)
      else
        let tempPath = ios_tempPath ih outputPath;
            settled = (\<lambda>t. st\<lparr>ios_disk := t, ios_activeExtraction := False, currentTempPath := None\<rparr>)
        in case createDirectoryAtPath ih tempPath (ios_disk st) of
             (False, t1) \<Rightarrow> (IosReject DIRECTORY_ERROR, settled t1)
           | (True, t1) \<Rightarrow>
               if cancellationRequested ih AfterTempDirectory
               then (IosReject UNARCHIVE_CANCELLED, settled (removeItemAtPath ih tempPath t1))
               else
                 let fileExtension = lowercaseString (pathExtension archivePath) in
                 if fileExtension = ''cbr'' \<or> fileExtension = ''rar''
                 then (case extractCBRFile ih archivePath tempPath outputPath t1 of
                         (result, t2) \<Rightarrow> (result, settled t2))
                 else if fileExtension = ''cbz'' \<or> fileExtension = ''zip''
                 then (case extractCBZFile ih archivePath tempPath outputPath t1 of
                         (result, t2) \<Rightarrow> (result, settled t2))
                 else (IosReject UNSUPPORTED_FORMAT, settled (removeItemAtPath ih tempPath t1)))"

text \<open>The synchronous part of \<^verbatim>\<open>unarchive:outputPath:resolve:reject:\<close>.\<close>
definition ios_unarchive ::
  "ios_host \<Rightarrow> string \<Rightarrow> string \<Rightarrow> ios_state \<Rightarrow> admission \<times> ios_state" where
  "ios_unarchive ih archivePath outputPath st =
     (if ios_activeExtraction st then (RejectedAtOnce UNARCHIVE_BUSY, st)
      else
        let st1 = st\<lparr>ios_activeExtraction := True\<rparr> in
        if \<not> isOutputPathInSandbox ih outputPath
        then (RejectedAtOnce UNARCHIVE_INVALID_PATH, st1\<lparr>ios_activeExtraction := False\<rparr>)
        else (Launched, st1))"

section \<open>Auxiliary notions\<close>

text \<open>Notions the statements and proofs below use; none of them is part of the modules.\<close>

text \<open>A proper name: not empty, without a separator.\<close>
definition slashfree :: "string \<Rightarrow> bool" where
  "slashfree s = (s \<noteq> [] \<and> CHR ''/'' \<notin> set s)"

text \<open>One step of \<open>canon\<close>.\<close>
definition canon_step :: "path \<Rightarrow> string \<Rightarrow> path" where
  "canon_step acc s = (if s = ''.'' then acc else if s = ''..'' then butlast acc else acc @ [s])"

text \<open>The path string of an absolute path name with at least one name.\<close>
definition slashed :: "path \<Rightarrow> string" where
  "slashed ns = concat (map (\<lambda>x. CHR ''/'' # x) ns)"

text \<open>The names a path name is resolved against.\<close>
definition base_of :: "host \<Rightarrow> jfile \<Rightarrow> path" where
  "base_of h f = (if isAbsolute f then [] else segments (userDir h))"

text \<open>
  The output path ends in a proper name that is not the name of the staging directory;
  then the destination and the staging directory are different entries of one directory.
\<close>
definition destination_named :: "host \<Rightarrow> string \<Rightarrow> bool" where
  "destination_named h outp =
     (segments outp \<noteq> [] \<and> last (segments outp) \<noteq> ''.'' \<and> last (segments outp) \<noteq> ''..''
      \<and> last (segments outp) \<noteq> tempDirName h)"

text \<open>No name holds a separator.\<close>
definition clean :: "path \<Rightarrow> bool" where
  "clean ns = (\<forall>x \<in> set ns. CHR ''/'' \<notin> set x)"







section \<open>Example hosts, archives and disks\<close>

definition two_files_items :: "item list" where
  "two_files_items =
     [\<lparr>isFolder = False, item_path = Some ''a.txt'', chunks = [''hel'', ''lo''],
       extractSlow = Some OK\<rparr>,
      \<lparr>isFolder = True, item_path = Some ''dir'', chunks = [], extractSlow = Some OK\<rparr>,
      \<lparr>isFolder = False, item_path = Some ''dir/b.txt'', chunks = [''0123456789''],
       extractSlow = Some OK\<rparr>]"

definition damaged_items :: "item list" where
  "damaged_items =
     [\<lparr>isFolder = False, item_path = Some ''page.jpg'', chunks = [''abc''],
       extractSlow = Some DATAERROR\<rparr>]"

definition folder_escape_items :: "item list" where
  "folder_escape_items =
     [\<lparr>isFolder = True, item_path = Some ''../../evil'', chunks = [], extractSlow = Some OK\<rparr>]"

definition file_escape_items :: "item list" where
  "file_escape_items =
     [\<lparr>isFolder = False, item_path = Some ''ok.txt'', chunks = [''fine''], extractSlow = Some OK\<rparr>,
      \<lparr>isFolder = False, item_path = Some ''../../evil'', chunks = [''pwn''],
       extractSlow = Some OK\<rparr>]"

definition nameless_items :: "item list" where
  "nameless_items =
     [\<lparr>isFolder = True, item_path = Some ''pages'', chunks = [], extractSlow = Some OK\<rparr>,
      \<lparr>isFolder = False, item_path = None, chunks = [''data''], extractSlow = Some OK\<rparr>]"

definition demo_sevenZip :: "bytes \<Rightarrow> item list option" where
  "demo_sevenZip b =
     (if b = ''two-files'' then Some two_files_items
      else if b = ''damaged'' then Some damaged_items
      else if b = ''folder-escape'' then Some folder_escape_items
      else if b = ''file-escape'' then Some file_escape_items
      else if b = ''nameless'' then Some nameless_items
      else None)"

definition uuid_1b4e :: "hex list" where
  "uuid_1b4e =
     [H1, HB, H4, HE, H6, H7, H9, H0, H0, HC, H3, HA, H4, H2, HD, H1,
      H8, HF, H5, H6, H0, H2, H4, H2, HA, HC, H1, H2, H0, H0, H0, H2]"

definition uuid_9f02 :: "hex list" where
  "uuid_9f02 =
     [H9, HF, H0, H2, HD, H3, H5, H5, H7, HE, H1, H1, H4, HA, H6, H6,
      HB, H3, H2, H8, H0, H2, H4, H2, HA, HC, H1, H2, H0, H0, H0, H3]"

definition demo_host :: host where
  "demo_host =
     \<lparr>filesDir = newFile ''/app/files'', cacheDir = newFile ''/app/cache'',
      externalFilesDir = None, userDir = ''/'', tempRandomUUID = uuid_1b4e,
      backupRandomUUID = uuid_9f02,
      currentTimeMillis = 42, isActive = (\<lambda>c. True), sevenZip = demo_sevenZip,
      filesMove = MovePerformed, renameToFails = (\<lambda>src dst. False),
      deleteFails = (\<lambda>p. False)\<rparr>"

text \<open>The same host on a platform where the commit step cannot move anything.\<close>
definition faulty_host :: host where
  "faulty_host = demo_host\<lparr>filesMove := MoveRaises, renameToFails := (\<lambda>src dst. True)\<rparr>"

text \<open>The same host when \<^verbatim>\<open>cancelUnarchive\<close> has cancelled the coroutine before it starts.\<close>
definition cancelled_host :: host where
  "cancelled_host = demo_host\<lparr>isActive := (\<lambda>c. False)\<rparr>"

definition demo_disk :: node where
  "demo_disk =
     Directory
       [(''app'', Directory
          [(''files'', Directory
             [(''two.zip'', RegFile ''two-files''),
              (''damaged.zip'', RegFile ''damaged''),
              (''folder.zip'', RegFile ''folder-escape''),
              (''slip.zip'', RegFile ''file-escape''),
              (''nameless.zip'', RegFile ''nameless''),
              (''out'', Directory [(''old.txt'', RegFile ''old'')])]),
           (''cache'', Directory [])])]"

definition idle_state :: module_state where
  "idle_state = \<lparr>activeExtraction = False, currentJobRef = False, disk = demo_disk\<rparr>"

definition busy_state :: module_state where
  "busy_state = \<lparr>activeExtraction = True, currentJobRef = True, disk = demo_disk\<rparr>"


text \<open>
  An iOS host whose unzip library unpacks \<^verbatim>\<open>a.txt\<close> and \<^verbatim>\<open>dir/b.txt\<close> into the
  destination it is given.
\<close>
definition demo_unzip :: "path \<Rightarrow> path \<Rightarrow> node \<Rightarrow> bool \<times> node" where
  "demo_unzip archive dest t =
     (True,
      fs_put (dest @ [''dir'', ''b.txt'']) (Some (RegFile ''0123456789''))
        (mkdir_at (dest @ [''dir''])
           (fs_put (dest @ [''a.txt'']) (Some (RegFile ''hello'')) t)))"

definition ios_demo_host :: ios_host where
  "ios_demo_host =
     \<lparr>currentDirectoryPath = ''/'', documentsPath = ''/docs'', cachesPath = ''/caches'',
      temporaryDirectory = ''/tmp/'', randomUUID = uuid_1b4e, timeIntervalSince1970 = 42,
      cancellationRequested = (\<lambda>c. False), stringByStandardizingPath = (\<lambda>s. s),
      unzipFileAtPath = demo_unzip,
      urkInitWithPath = (\<lambda>a t. False), urkListFilenames = (\<lambda>a t. None),
      urkExtractFilesTo = (\<lambda>a d t. (False, t)),
      removeItemFails = (\<lambda>p. False), replaceItemFails = (\<lambda>q p. False),
      moveItemFails = (\<lambda>p q. False)\<rparr>"

definition ios_demo_disk :: node where
  "ios_demo_disk =
     Directory
       [(''docs'', Directory
          [(''two.zip'', RegFile ''two-files''), (''notes.txt'', RegFile ''plain text''),
           (''out'', Directory [(''old.txt'', RegFile ''old'')])])]"

definition ios_idle_state :: ios_state where
  "ios_idle_state =
     \<lparr>ios_activeExtraction = False, currentTempPath = None, ios_disk = ios_demo_disk\<rparr>"

definition ios_busy_state :: ios_state where
  "ios_busy_state =
     \<lparr>ios_activeExtraction = True, currentTempPath = None, ios_disk = ios_demo_disk\<rparr>"


section \<open>Look-up after update\<close>

lemma fileAt_Nil: "fileAt [] t = (case t of RegFile b \<Rightarrow> Some b | Directory es \<Rightarrow> None)"
  by (simp add: fileAt_def split: node.splits)

lemma fileAt_Cons:
  "fileAt (s # p) t =
     (case t of RegFile b \<Rightarrow> None
      | Directory es \<Rightarrow> (case map_of es s of None \<Rightarrow> None | Some c \<Rightarrow> fileAt p c))"
  by (simp add: fileAt_def split: node.splits option.splits)

lemma fs_lookup_append:
  "fs_lookup (p @ r) t = (case fs_lookup p t of None \<Rightarrow> None | Some n \<Rightarrow> fs_lookup r n)"
  by (induction p arbitrary: t) (auto split: node.splits option.splits)

lemma fs_lookup_put_diverge:
  "\<not> prefix p q \<Longrightarrow> \<not> prefix q p \<Longrightarrow> fs_lookup q (fs_put p v t) = fs_lookup q t"
proof (induction p arbitrary: q t)
  case Nil
  then show ?case by simp
next
  case (Cons s p)
  then obtain s' q' where q: "q = s' # q'"
    by (cases q) auto
  show ?case
  proof (cases t)
    case (RegFile b)
    then show ?thesis by simp
  next
    case (Directory es)
    show ?thesis
    proof (cases "s' = s")
      case True
      with Cons.prems q have np: "\<not> prefix p q'" "\<not> prefix q' p" by auto
      then have "p \<noteq> []" by auto
      with Directory q True Cons.IH[OF np] show ?thesis
        by (auto simp: AList.update_conv' split: option.splits)
    next
      case False
      with Directory q show ?thesis
        by (auto simp: AList.update_conv' AList.delete_conv' split: option.splits)
    qed
  qed
qed

lemma fileAt_put_frame:
  "\<not> prefix p q \<Longrightarrow> fileAt q (fs_put p v t) = fileAt q t"
proof (induction p arbitrary: q t)
  case Nil
  then show ?case by simp
next
  case (Cons s p)
  show ?case
  proof (cases t)
    case (RegFile b)
    then show ?thesis by simp
  next
    case (Directory es)
    show ?thesis
    proof (cases q)
      case Nil
      with Directory show ?thesis
        by (auto simp: fileAt_Nil split: option.splits)
    next
      case (Cons s' q')
      show ?thesis
      proof (cases "s' = s")
        case True
        with Cons.prems Cons have np: "\<not> prefix p q'" by auto
        then have "p \<noteq> []" by auto
        with Directory Cons True Cons.IH[OF np] show ?thesis
          by (auto simp: fileAt_Cons AList.update_conv' split: option.splits)
      next
        case False
        with Directory Cons show ?thesis
          by (auto simp: fileAt_Cons AList.update_conv' AList.delete_conv' split: option.splits)
      qed
    qed
  qed
qed

lemma fs_lookup_put_same:
  "p \<noteq> [] \<Longrightarrow> is_dir (fs_lookup (butlast p) t) \<Longrightarrow> fs_lookup p (fs_put p v t) = v"
proof (induction p arbitrary: t)
  case Nil
  then show ?case by simp
next
  case (Cons s p)
  show ?case
  proof (cases t)
    case (RegFile b)
    with Cons.prems show ?thesis by (auto simp: is_dir_def split: if_splits)
  next
    case (Directory es)
    show ?thesis
    proof (cases "p = []")
      case True
      with Directory show ?thesis
        by (auto simp: AList.update_conv' AList.delete_conv' split: option.splits)
    next
      case False
      with Cons.prems Directory obtain c where c: "map_of es s = Some c"
        by (auto simp: is_dir_def split: option.splits)
      with Cons.prems Directory False have "is_dir (fs_lookup (butlast p) c)"
        by simp
      with Cons.IH[OF False this] Directory False c show ?thesis
        by (simp add: AList.update_conv')
    qed
  qed
qed

lemma fs_lookup_put_None:
  "p \<noteq> [] \<Longrightarrow> fs_lookup p (fs_put p None t) = None"
proof (induction p arbitrary: t)
  case Nil
  then show ?case by simp
next
  case (Cons s p)
  show ?case
  proof (cases t)
    case (RegFile b)
    then show ?thesis by simp
  next
    case (Directory es)
    show ?thesis
    proof (cases "p = []")
      case True
      with Directory show ?thesis
        by (auto simp: AList.delete_conv' split: option.splits)
    next
      case False
      with Cons.IH[OF False] Directory show ?thesis
        by (auto simp: AList.update_conv' split: option.splits)
    qed
  qed
qed

lemma fs_lookup_mkdir_at_frame:
  assumes "\<not> prefix d p"
  shows "fs_lookup d (mkdir_at p t) = fs_lookup d t"
proof (cases "p \<noteq> [] \<and> fs_lookup p t = None \<and> is_dir (fs_lookup (butlast p) t)")
  case False
  then show ?thesis by (auto simp: mkdir_at_def)
next
  case True
  then have new: "fs_lookup p (fs_put p (Some (Directory [])) t) = Some (Directory [])"
    by (simp add: fs_lookup_put_same)
  show ?thesis
  proof (cases "prefix p d")
    case False
    with assms True show ?thesis
      by (simp add: mkdir_at_def fs_lookup_put_diverge)
  next
    case p: True
    then obtain r where d: "d = p @ r"
      by (auto simp: prefix_def)
    with assms have "r \<noteq> []" by auto
    then obtain x r' where r: "r = x # r'" by (cases r) auto
    from True d have "fs_lookup d t = None"
      by (simp add: fs_lookup_append)
    moreover from new d r have "fs_lookup d (fs_put p (Some (Directory [])) t) = None"
      by (simp add: fs_lookup_append)
    ultimately show ?thesis using True
      by (simp add: mkdir_at_def)
  qed
qed

lemma fileAt_mkdir_at: "fileAt q (mkdir_at p t) = fileAt q t"
proof (cases "p \<noteq> [] \<and> fs_lookup p t = None \<and> is_dir (fs_lookup (butlast p) t)")
  case False
  then show ?thesis by (auto simp: mkdir_at_def)
next
  case True
  then have new: "fs_lookup p (fs_put p (Some (Directory [])) t) = Some (Directory [])"
    by (simp add: fs_lookup_put_same)
  show ?thesis
  proof (cases "prefix p q")
    case False
    with True show ?thesis
      by (simp add: mkdir_at_def fileAt_put_frame)
  next
    case p: True
    then obtain r where q: "q = p @ r"
      by (auto simp: prefix_def)
    from True q have "fileAt q t = None"
      by (simp add: fileAt_def fs_lookup_append)
    moreover from new q have "fileAt q (fs_put p (Some (Directory [])) t) = None"
      by (cases r) (simp_all add: fileAt_def fs_lookup_append)
    ultimately show ?thesis using True
      by (simp add: mkdir_at_def)
  qed
qed

lemma fileAt_foldl_mkdir_at: "fileAt q (foldl (\<lambda>u p. mkdir_at p u) t ps) = fileAt q t"
  by (induction ps arbitrary: t) (simp_all add: fileAt_mkdir_at)

lemma fs_lookup_foldl_mkdir_at_frame:
  "\<forall>p \<in> set ps. \<not> prefix d p \<Longrightarrow>
   fs_lookup d (foldl (\<lambda>u p. mkdir_at p u) t ps) = fs_lookup d t"
  by (induction ps arbitrary: t) (simp_all add: fs_lookup_mkdir_at_frame)

section \<open>Path strings and path names\<close>

lemma split_slash_slashfree:
  "x \<in> set (split_slash cur s) \<Longrightarrow> CHR ''/'' \<notin> set cur \<Longrightarrow> slashfree x"
proof (induction s arbitrary: cur)
  case Nil
  then show ?case by (auto simp: slashfree_def split: if_splits)
next
  case (Cons c s)
  show ?case
  proof (cases "c = CHR ''/''")
    case True
    with Cons.prems have "x = cur \<and> cur \<noteq> [] \<or> x \<in> set (split_slash [] s)"
      by (auto split: if_splits)
    with Cons.IH[of "[]"] Cons.prems(2) show ?thesis
      by (auto simp: slashfree_def)
  next
    case False
    with Cons.prems have "x \<in> set (split_slash (cur @ [c]) s)" by simp
    with Cons.IH[of "cur @ [c]"] Cons.prems(2) False show ?thesis by simp
  qed
qed

lemma segments_slashfree: "x \<in> set (segments s) \<Longrightarrow> slashfree x"
  using split_slash_slashfree[of x "[]" s] by (simp add: segments_def)

lemma split_slash_no_slash:
  "CHR ''/'' \<notin> set s \<Longrightarrow> split_slash cur s = (if cur @ s = [] then [] else [cur @ s])"
  by (induction s arbitrary: cur) auto

lemma segments_plain: "slashfree s \<Longrightarrow> segments s = [s]"
  by (simp add: segments_def slashfree_def split_slash_no_slash)

lemma canon_foldl: "canon ns = foldl canon_step [] ns"
  by (simp add: canon_def canon_step_def[abs_def])

lemma canon_snoc: "canon (ns @ [s]) = canon_step (canon ns) s"
  by (simp add: canon_foldl)

lemma canon_subset: "set (canon ns) \<subseteq> set ns"
proof (induction ns rule: rev_induct)
  case Nil
  then show ?case by (simp add: canon_def)
next
  case (snoc s ns)
  then show ?case
    by (auto simp: canon_snoc canon_step_def dest: in_set_butlastD)
qed

lemma canon_no_dots: "''.'' \<notin> set (canon ns) \<and> ''..'' \<notin> set (canon ns)"
proof (induction ns rule: rev_induct)
  case Nil
  then show ?case by (simp add: canon_def)
next
  case (snoc s ns)
  then show ?case
    by (auto simp: canon_snoc canon_step_def dest: in_set_butlastD)
qed

lemma foldl_canon_step_plain:
  "''.'' \<notin> set ns \<Longrightarrow> ''..'' \<notin> set ns \<Longrightarrow> foldl canon_step acc ns = acc @ ns"
proof (induction ns arbitrary: acc)
  case Nil
  then show ?case by simp
next
  case (Cons a ns)
  then show ?case by (auto simp: canon_step_def)
qed

lemma canon_plain: "''.'' \<notin> set ns \<Longrightarrow> ''..'' \<notin> set ns \<Longrightarrow> canon ns = ns"
  by (simp add: canon_foldl foldl_canon_step_plain)

lemma canon_append_plain:
  "''.'' \<notin> set ms \<Longrightarrow> ''..'' \<notin> set ms \<Longrightarrow> canon (ns @ ms) = canon ns @ ms"
  by (simp add: canon_foldl foldl_canon_step_plain)

lemma canon_idem: "canon (canon ns) = canon ns"
  using canon_no_dots[of ns] by (simp add: canon_plain)

lemma canon_canon_append: "canon (canon ns @ ms) = canon (ns @ ms)"
  using canon_idem[of ns] by (simp add: canon_foldl)

lemma joinPath_snoc: "ns \<noteq> [] \<Longrightarrow> joinPath (ns @ [s]) = joinPath ns @ ''/'' @ s"
  by (induction ns rule: joinPath.induct) auto

lemma slashed_joinPath: "ns \<noteq> [] \<Longrightarrow> CHR ''/'' # joinPath ns = slashed ns"
  by (induction ns rule: joinPath.induct) (auto simp: slashed_def)

lemma name_boundary:
  assumes "CHR ''/'' \<notin> set x" "CHR ''/'' \<notin> set y"
    and "prefix (x @ CHR ''/'' # r1) (y @ r2)"
    and "r2 = [] \<or> hd r2 = CHR ''/''"
  shows "x = y \<and> prefix (CHR ''/'' # r1) r2"
  using assms
proof (induction x arbitrary: y)
  case Nil
  then show ?case by (cases y) auto
next
  case (Cons c x)
  show ?case
  proof (cases y)
    case Nil
    with Cons.prems show ?thesis by (cases r2) auto
  next
    case (Cons d y')
    with Cons.prems Cons.IH[of y'] show ?thesis by auto
  qed
qed

lemma slashed_prefix:
  assumes "\<forall>x \<in> set a. CHR ''/'' \<notin> set x" "\<forall>x \<in> set b. CHR ''/'' \<notin> set x"
    and "prefix (slashed a @ ''/'') (slashed b)"
  shows "strict_prefix a b"
  using assms
proof (induction a arbitrary: b)
  case Nil
  then show ?case by (cases b) (auto simp: slashed_def)
next
  case (Cons x a)
  show ?case
  proof (cases b)
    case Nil
    with Cons.prems show ?thesis by (simp add: slashed_def)
  next
    case (Cons y b')
    have tail: "slashed b' = [] \<or> hd (slashed b') = CHR ''/''"
      by (cases b') (simp_all add: slashed_def)
    obtain r1 where r1: "slashed a @ ''/'' = CHR ''/'' # r1"
      by (cases a) (simp_all add: slashed_def)
    from Cons.prems(3) Cons r1 have "prefix (x @ CHR ''/'' # r1) (y @ slashed b')"
      by (simp add: slashed_def)
    with name_boundary[of x y r1 "slashed b'"] Cons.prems(1,2) Cons tail
    have "x = y" "prefix (CHR ''/'' # r1) (slashed b')" by auto
    with r1 have "prefix (slashed a @ ''/'') (slashed b')" by simp
    with Cons.IH[of b'] Cons.prems(1,2) Cons have "strict_prefix a b'" by simp
    with \<open>x = y\<close> Cons show ?thesis by simp
  qed
qed

section \<open>The name of the staging directory\<close>

lemma digit_not_slash: "k < 10 \<Longrightarrow> char_of (48 + k :: nat) \<noteq> CHR ''/''"
proof
  assume k: "k < 10" and "char_of (48 + k) = CHR ''/''"
  then have "(of_char (char_of (48 + k)) :: nat) = of_char CHR ''/''" by simp
  with k show False by simp
qed

lemma show_nat_no_slash: "CHR ''/'' \<notin> set (show_nat n)"
proof (induction n rule: show_nat.induct)
  case (1 n)
  show ?case
  proof (cases "n < 10")
    case True
    then show ?thesis
      by (subst show_nat.simps) (simp add: digit_not_slash[symmetric])
  next
    case False
    have "n mod 10 < 10" by simp
    with False 1 show ?thesis
      by (subst show_nat.simps) (simp add: digit_not_slash[symmetric])
  qed
qed


lemma upperHex_not_slash: "upperHex d \<noteq> CHR ''/''"
  by (cases d) simp_all




lemma tempDirName_slashfree:
  "CHR ''/'' \<notin> set (tempUUID h) \<Longrightarrow> slashfree (tempDirName h)"
  by (simp add: tempDirName_def slashfree_def show_nat_no_slash)

lemma tempDirName_not_dots: "tempDirName h \<noteq> ''.'' \<and> tempDirName h \<noteq> ''..''"
  by (simp add: tempDirName_def)

lemma resolve_alt: "resolve h f = canon (names (getAbsoluteFile h f))"
  by (simp add: resolve_def getCanonicalFile_def)

lemma resolve_base: "resolve h f = canon (base_of h f @ names f)"
  by (simp add: resolve_alt getAbsoluteFile_def base_of_def)

lemma stagingDir_cases:
  "stagingDir h outp =
     (if segments outp = [] \<or> (butlast (segments outp) = [] \<and> \<not> isAbsolute (newFile outp))
      then File False (segments (tempDirName h))
      else File (isAbsolute (newFile outp)) (butlast (segments outp) @ segments (tempDirName h)))"
  by (auto simp: stagingDir_def newFileIn_def getParentFile_def newFile_def tempDirName_def)

lemma resolve_stagingDir_snoc:
  assumes "CHR ''/'' \<notin> set (tempUUID h)"
  shows "\<exists>par. resolve h (stagingDir h outp) = par @ [tempDirName h]"
proof -
  let ?tn = "tempDirName h"
  have seg: "segments ?tn = [?tn]"
    using assms by (simp add: segments_plain tempDirName_slashfree)
  have plain: "''.'' \<notin> set [?tn]" "''..'' \<notin> set [?tn]"
    using tempDirName_not_dots[of h] by auto
  have "\<exists>ns. names (getAbsoluteFile h (stagingDir h outp)) = ns @ [?tn]"
    unfolding stagingDir_cases seg by (simp add: getAbsoluteFile_def)
  then obtain ns where "resolve h (stagingDir h outp) = canon (ns @ [?tn])"
    by (auto simp: resolve_alt)
  then show ?thesis
    using canon_append_plain[OF plain, of ns] by auto
qed

lemma resolve_siblings:
  assumes "CHR ''/'' \<notin> set (tempUUID h)" "destination_named h outp"
  shows "\<exists>par l. resolve h (stagingDir h outp) = par @ [tempDirName h]
           \<and> resolve h (newFile outp) = par @ [l] \<and> l \<noteq> tempDirName h"
proof -
  let ?tn = "tempDirName h"
  let ?segs = "segments outp"
  let ?l = "last ?segs"
  from assms(2) have ne: "?segs \<noteq> []" and l: "?l \<noteq> ''.''" "?l \<noteq> ''..''" "?l \<noteq> ?tn"
    by (auto simp: destination_named_def)
  have seg: "segments ?tn = [?tn]"
    using assms by (simp add: segments_plain tempDirName_slashfree)
  have plain: "''.'' \<notin> set [?tn]" "''..'' \<notin> set [?tn]"
    using tempDirName_not_dots[of h] by auto
  have plainl: "''.'' \<notin> set [?l]" "''..'' \<notin> set [?l]"
    using l by auto
  let ?par = "canon (base_of h (newFile outp) @ butlast ?segs)"
  have "names (newFile outp) = butlast ?segs @ [?l]"
    using ne by (simp add: newFile_def)
  then have "resolve h (newFile outp) = canon ((base_of h (newFile outp) @ butlast ?segs) @ [?l])"
    by (simp add: resolve_base)
  also have "\<dots> = ?par @ [?l]"
    by (rule canon_append_plain[OF plainl])
  finally have d: "resolve h (newFile outp) = ?par @ [?l]" .
  have "resolve h (stagingDir h outp) = canon ((base_of h (newFile outp) @ butlast ?segs) @ [?tn])"
    unfolding stagingDir_cases resolve_base seg using ne
    by (auto simp: base_of_def)
  also have "\<dots> = ?par @ [?tn]"
    by (rule canon_append_plain[OF plain])
  finally have s: "resolve h (stagingDir h outp) = ?par @ [?tn]" .
  from d s l show ?thesis by blast
qed

section \<open>Paths as they are written\<close>

lemma walk_SomeD: "walk raw t = Some p \<Longrightarrow> p = canon raw \<and> reachable raw t"
  by (auto simp: walk_def split: if_splits)

lemma locate_SomeD: "locate h f t = Some p \<Longrightarrow> p = resolve h f"
  by (auto simp: locate_def resolve_alt dest: walk_SomeD)

lemma locate_reachable:
  "locate h f t = Some p \<longleftrightarrow> (p = resolve h f \<and> reachable (names (getAbsoluteFile h f)) t)"
  by (auto simp: locate_def walk_def resolve_alt)


lemma lookup_parent_is_dir:
  assumes "fs_lookup p t \<noteq> None" "p \<noteq> []"
  shows "is_dir (fs_lookup (butlast p) t)"
proof -
  from assms(2) have p: "p = butlast p @ [last p]" by simp
  from assms(1) have "fs_lookup (butlast p @ [last p]) t \<noteq> None"
    using p by simp
  then show ?thesis
    by (auto simp: fs_lookup_append is_dir_def split: option.splits node.splits)
qed

lemma reachable_iff:
  "reachable raw t \<longleftrightarrow> (\<forall>q. strict_prefix q raw \<longrightarrow> is_dir (fs_lookup (canon q) t))"
proof (cases raw rule: rev_cases)
  case Nil
  then show ?thesis by (simp add: reachable_def)
next
  case (snoc xs x)
  have "\<And>q. strict_prefix q (xs @ [x]) \<longleftrightarrow> prefix q xs"
    by (auto simp: strict_prefix_def prefix_snoc dest: prefix_length_le)
  with snoc show ?thesis
    by (auto simp: reachable_def list_all_iff in_set_prefixes)
qed

lemma reachable_mono:
  assumes "reachable raw t" "\<And>q. strict_prefix q raw \<Longrightarrow> is_dir (fs_lookup (canon q) t)
                               \<Longrightarrow> is_dir (fs_lookup (canon q) t')"
  shows "reachable raw t'"
  using assms by (auto simp: reachable_iff)




section \<open>What the file operations leave alone\<close>

lemma prune_empty:
  "prune fails p (Directory []) = (if fails p then Some (Directory []) else None)"
  by (simp add: listEntries_def)

lemma remove_tree_fileAt:
  "\<not> prefix p q \<Longrightarrow> fileAt q (remove_tree fails p t) = fileAt q t"
  by (auto simp: remove_tree_def fileAt_put_frame split: option.splits)

lemma remove_tree_lookup:
  "\<not> prefix p d \<Longrightarrow> \<not> prefix d p \<Longrightarrow> fs_lookup d (remove_tree fails p t) = fs_lookup d t"
  by (auto simp: remove_tree_def fs_lookup_put_diverge split: option.splits)

lemma file_delete_cases:
  "file_delete h f t = t \<or> file_delete h f t = fs_put (resolve h f) None t"
  by (auto simp: file_delete_def split: option.splits node.splits dest: locate_SomeD)

lemma file_delete_fileAt:
  "\<not> prefix (resolve h f) q \<Longrightarrow> fileAt q (file_delete h f t) = fileAt q t"
  using file_delete_cases[of h f t] by (auto simp: fileAt_put_frame)

lemma file_delete_lookup:
  "\<not> prefix (resolve h f) d \<Longrightarrow> \<not> prefix d (resolve h f) \<Longrightarrow>
   fs_lookup d (file_delete h f t) = fs_lookup d t"
  using file_delete_cases[of h f t] by (auto simp: fs_lookup_put_diverge)

lemma writeChunks_cases:
  "writeChunks h f cs t = t \<or>
   writeChunks h f cs t = fs_put (resolve h f) (Some (RegFile (concat cs))) t"
  by (auto simp: writeChunks_def split: option.splits dest: locate_SomeD)

lemma writeChunks_fileAt:
  "\<not> prefix (resolve h f) q \<Longrightarrow> fileAt q (writeChunks h f cs t) = fileAt q t"
  using writeChunks_cases[of h f cs t] by (auto simp: fileAt_put_frame)

lemma writeChunks_lookup:
  "\<not> prefix (resolve h f) d \<Longrightarrow> \<not> prefix d (resolve h f) \<Longrightarrow>
   fs_lookup d (writeChunks h f cs t) = fs_lookup d t"
  using writeChunks_cases[of h f cs t] by (auto simp: fs_lookup_put_diverge)

lemma mkdirs_fileAt: "fileAt q (snd (mkdirs h f t)) = fileAt q t"
  by (simp add: mkdirs_def Let_def fileAt_foldl_mkdir_at)

lemma mkdirs_lookup:
  assumes "\<not> prefix d (resolve h f)"
  shows "fs_lookup d (snd (mkdirs h f t)) = fs_lookup d t"
proof -
  have "\<forall>p \<in> set (prefixes (resolve h f)). \<not> prefix d p"
    using assms by (auto simp: in_set_prefixes dest: prefix_order.trans)
  then show ?thesis
    by (simp add: mkdirs_def Let_def fs_lookup_foldl_mkdir_at_frame)
qed

lemma deleteRecursively_fileAt:
  "\<not> prefix (resolve h f) q \<Longrightarrow> fileAt q (deleteRecursively h f t) = fileAt q t"
  by (auto simp: deleteRecursively_def remove_tree_fileAt split: option.splits dest: locate_SomeD)

lemma deleteRecursively_lookup:
  "\<not> prefix (resolve h f) d \<Longrightarrow> \<not> prefix d (resolve h f) \<Longrightarrow>
   fs_lookup d (deleteRecursively h f t) = fs_lookup d t"
  by (auto simp: deleteRecursively_def remove_tree_lookup split: option.splits
        dest: locate_SomeD)

lemma canon_fixed_butlast: "canon ns = ns \<Longrightarrow> canon (butlast ns) = butlast ns"
proof -
  assume "canon ns = ns"
  with canon_no_dots[of ns] have "''.'' \<notin> set ns" "''..'' \<notin> set ns" by auto
  then have "''.'' \<notin> set (butlast ns)" "''..'' \<notin> set (butlast ns)"
    by (auto dest: in_set_butlastD)
  then show ?thesis by (rule canon_plain)
qed

lemma resolve_canonical: "canon ns = ns \<Longrightarrow> resolve h (File True ns) = ns"
  by (simp add: resolve_alt getAbsoluteFile_def)

lemma writeEntry_fileAt:
  assumes "canon ns = ns" "\<not> prefix ns q"
  shows "fileAt q (fst (writeEntry h tmp (File True ns) it s)) = fileAt q (fst s)"
proof -
  have r: "resolve h (File True ns) = ns"
    using assms(1) by (rule resolve_canonical)
  have np: "\<not> prefix (resolve h (File True ns)) q"
    using assms(2) r by simp
  show ?thesis
    by (simp add: writeEntry_def Let_def file_delete_fileAt[OF np] writeChunks_fileAt[OF np]
          mkdirs_fileAt split: option.splits)
qed

lemma writeEntry_lookup:
  assumes "canon ns = ns" "\<not> prefix ns d" "\<not> prefix d ns"
  shows "fs_lookup d (fst (writeEntry h tmp (File True ns) it s)) = fs_lookup d (fst s)"
proof -
  have r: "resolve h (File True ns) = ns"
    using assms(1) by (rule resolve_canonical)
  have np: "\<not> prefix (resolve h (File True ns)) d" "\<not> prefix d (resolve h (File True ns))"
    using assms r by simp_all
  have par: "\<And>pf. getParentFile (File True ns) = Some pf \<Longrightarrow> \<not> prefix d (resolve h pf)"
  proof -
    fix pf assume "getParentFile (File True ns) = Some pf"
    then have "pf = File True (butlast ns)"
      by (auto simp: getParentFile_def split: if_splits)
    then have "resolve h pf = butlast ns"
      using canon_fixed_butlast[OF assms(1)] by (simp add: resolve_canonical)
    moreover have "prefix (butlast ns) ns"
      by (simp add: prefixeq_butlast)
    ultimately show "\<not> prefix d (resolve h pf)"
      using assms(3) by (auto dest: prefix_order.trans)
  qed
  show ?thesis
    by (simp add: writeEntry_def Let_def file_delete_lookup[OF np] writeChunks_lookup[OF np]
          mkdirs_lookup par split: option.splits)
qed

lemma writeEntry_snd_prefix: "prefix (snd s) (snd (writeEntry h tmp f it s))"
  by (simp add: writeEntry_def Let_def split: option.splits)

section \<open>What the sanitizer guarantees\<close>

lemma clean_segments: "clean (segments s)"
  using segments_slashfree by (auto simp: clean_def slashfree_def)

lemma clean_append: "clean (a @ b) = (clean a \<and> clean b)"
  by (auto simp: clean_def)

lemma clean_canon: "clean ns \<Longrightarrow> clean (canon ns)"
  using canon_subset[of ns] by (auto simp: clean_def)

lemma clean_butlast: "clean ns \<Longrightarrow> clean (butlast ns)"
  by (auto simp: clean_def dest: in_set_butlastD)

lemma clean_resolve: "clean (names f) \<Longrightarrow> clean (resolve h f)"
  by (simp add: resolve_base base_of_def clean_canon clean_append clean_segments)

lemma clean_stagingDir: "clean (names (stagingDir h outp))"
  by (simp add: stagingDir_cases clean_append clean_segments clean_butlast)

lemma clean_newFileIn: "clean (names f) \<Longrightarrow> clean (names (newFileIn (Some f) e))"
  by (cases f) (simp add: newFileIn_def clean_append clean_segments)

lemma getPath_absolute:
  "getPath (File True ns) = (if ns = [] then ''/'' else slashed ns)"
  by (simp add: getPath_def slashed_joinPath)

lemma isSafeEntryPath_SomeD:
  assumes safe: "isSafeEntryPath h e tmp = Some outputFile" and cl: "clean (names tmp)"
  shows "\<exists>ns. outputFile = File True ns \<and> canon ns = ns \<and> strict_prefix (resolve h tmp) ns"
proof -
  let ?P = "resolve h tmp"
  let ?ns = "resolve h (newFileIn (Some tmp) e)"
  have out: "outputFile = File True ?ns"
    and pre: "prefix (getPath (File True ?P) @ ''/'') (getPath (File True ?ns))"
    using safe
    by (auto simp: isSafeEntryPath_def Let_def getCanonicalPath_def getCanonicalFile_def
          resolve_def split: if_splits)
  have fixed: "canon ?ns = ?ns"
    by (simp add: resolve_alt canon_idem)
  have cP: "clean ?P" using cl by (rule clean_resolve)
  have cN: "clean ?ns" using cl by (intro clean_resolve clean_newFileIn)
  have "strict_prefix ?P ?ns"
  proof (cases "?P = []")
    case True
    with pre have "?ns \<noteq> []"
      by (auto simp: getPath_absolute)
    with True show ?thesis by (auto simp: strict_prefix_def)
  next
    case False
    with pre have "?ns \<noteq> []"
      by (cases ?P) (auto simp: getPath_absolute slashed_def)
    with pre False have "prefix (slashed ?P @ ''/'') (slashed ?ns)"
      by (simp add: getPath_absolute)
    with cP cN show ?thesis
      by (intro slashed_prefix) (auto simp: clean_def)
  qed
  with out fixed show ?thesis by blast
qed

lemma extractEntry_SomeD:
  assumes "extractEntry h tmp i it s = Some s'" "clean (names tmp)"
  shows "\<exists>ns. canon ns = ns \<and> strict_prefix (resolve h tmp) ns
           \<and> s' = writeEntry h tmp (File True ns) it s"
  using assms isSafeEntryPath_SomeD[of h "itemPath i it" tmp]
  by (auto simp: extractEntry_def split: option.splits)

lemma under_not_prefix:
  "strict_prefix P ns \<Longrightarrow> \<not> prefix P q \<Longrightarrow> \<not> prefix ns q"
  by (auto dest: prefix_order.trans)

lemma under_diverge:
  assumes "strict_prefix P ns" "\<not> prefix P d" "\<not> prefix d P"
  shows "\<not> prefix ns d \<and> \<not> prefix d ns"
proof -
  from assms(1) have pn: "prefix P ns" by auto
  have "\<not> prefix ns d"
    using pn assms(2) by (auto dest: prefix_order.trans)
  moreover have "\<not> prefix d ns"
  proof
    assume "prefix d ns"
    with pn have "prefix d P \<or> prefix P d"
      using prefix_same_cases by blast
    with assms show False by auto
  qed
  ultimately show ?thesis by simp
qed

lemma extractEntry_fileAt:
  assumes "extractEntry h tmp i it s = Some s'" "clean (names tmp)" "\<not> prefix (resolve h tmp) q"
  shows "fileAt q (fst s') = fileAt q (fst s)"
proof -
  from extractEntry_SomeD[OF assms(1,2)] obtain ns where
    ns: "canon ns = ns" "strict_prefix (resolve h tmp) ns" "s' = writeEntry h tmp (File True ns) it s"
    by blast
  from under_not_prefix[OF ns(2) assms(3)] ns show ?thesis
    by (simp add: writeEntry_fileAt)
qed

lemma extractEntry_lookup:
  assumes "extractEntry h tmp i it s = Some s'" "clean (names tmp)"
    "\<not> prefix (resolve h tmp) d" "\<not> prefix d (resolve h tmp)"
  shows "fs_lookup d (fst s') = fs_lookup d (fst s)"
proof -
  from extractEntry_SomeD[OF assms(1,2)] obtain ns where
    ns: "canon ns = ns" "strict_prefix (resolve h tmp) ns" "s' = writeEntry h tmp (File True ns) it s"
    by blast
  from under_diverge[OF ns(2) assms(3,4)] ns show ?thesis
    by (simp add: writeEntry_lookup)
qed

lemma extractItems_fileAt:
  assumes "clean (names tmp)" "\<not> prefix (resolve h tmp) q"
  shows "fileAt q (fst (snd (extractItems h tmp i items s))) = fileAt q (fst s)"
proof (induction items arbitrary: i s)
  case Nil
  then show ?case by simp
next
  case (Cons it rest)
  show ?case
  proof (cases "extractEntry h tmp i it s")
    case None
    then show ?thesis using Cons.IH by simp
  next
    case (Some s')
    with extractEntry_fileAt[OF Some assms] Cons.IH[of "Suc i" s'] Cons.IH[of "Suc i" s]
    show ?thesis by simp
  qed
qed

lemma extractItems_lookup:
  assumes "clean (names tmp)" "\<not> prefix (resolve h tmp) d" "\<not> prefix d (resolve h tmp)"
  shows "fs_lookup d (fst (snd (extractItems h tmp i items s))) = fs_lookup d (fst s)"
proof (induction items arbitrary: i s)
  case Nil
  then show ?case by simp
next
  case (Cons it rest)
  show ?case
  proof (cases "extractEntry h tmp i it s")
    case None
    then show ?thesis using Cons.IH by simp
  next
    case (Some s')
    with extractEntry_lookup[OF Some assms] Cons.IH[of "Suc i" s'] Cons.IH[of "Suc i" s]
    show ?thesis by simp
  qed
qed

lemma extractItems_codes:
  "fst (extractItems h tmp i items s) = Completed \<or>
   fst (extractItems h tmp i items s) = Aborted UNARCHIVE_CANCELLED \<or>
   fst (extractItems h tmp i items s) = Aborted UNARCHIVE_ENTRY_INVALID"
  by (induction items arbitrary: i s) (auto split: option.splits)

section \<open>The regular files below a node\<close>

lemma listEntries_iff: "(k, c) \<in> set (listEntries es) \<longleftrightarrow> map_of es k = Some c"
proof -
  have "set (listEntries es) = Map.graph (map_of es)"
    by (simp add: listEntries_def AList.graph_map_of)
  then show ?thesis
    by (simp add: in_graphI Map.graph_def)
qed


lemma fileAt_append:
  "fileAt (p @ r) t = (case fs_lookup p t of None \<Rightarrow> None | Some n \<Rightarrow> fileAt r n)"
  by (simp add: fileAt_def fs_lookup_append split: option.splits)











section \<open>The coroutine as a whole\<close>

lemma commitStaging_codes:
  "fst (commitStaging h outp tmp t) \<noteq> Reject FILE_NOT_FOUND \<and>
   fst (commitStaging h outp tmp t) \<noteq> Reject UNSUPPORTED_FORMAT"
  by (simp add: commitStaging_def Let_def split: prod.splits bool.splits option.splits)

lemma extraction_try_cases:
  "extraction_try h a outp t = (Reject FILE_NOT_FOUND, t, None) \<or>
   extraction_try h a outp t = (Reject UNARCHIVE_CANCELLED, t, None) \<or>
   (\<exists>r t'. extraction_try h a outp t = (r, t', Some (stagingDir h outp))
      \<and> r \<noteq> Reject FILE_NOT_FOUND \<and> r \<noteq> Reject UNSUPPORTED_FORMAT)"
proof -
  have codes: "\<And>items t1 code t2 l.
      extractItems h (stagingDir h outp) 0 items (t1, []) = (Aborted code, t2, l) \<Longrightarrow>
      code \<noteq> FILE_NOT_FOUND \<and> code \<noteq> UNSUPPORTED_FORMAT"
  proof -
    fix items t1 code t2 l
    assume "extractItems h (stagingDir h outp) 0 items (t1, []) = (Aborted code, t2, l)"
    with extractItems_codes[of h "stagingDir h outp" 0 items "(t1, [])"]
    show "code \<noteq> FILE_NOT_FOUND \<and> code \<noteq> UNSUPPORTED_FORMAT" by auto
  qed
  have commit: "\<And>t2 r t4. commitStaging h outp (stagingDir h outp) t2 = (r, t4) \<Longrightarrow>
      r \<noteq> Reject FILE_NOT_FOUND \<and> r \<noteq> Reject UNSUPPORTED_FORMAT"
  proof -
    fix t2 r t4
    assume "commitStaging h outp (stagingDir h outp) t2 = (r, t4)"
    with commitStaging_codes[of h outp "stagingDir h outp" t2]
    show "r \<noteq> Reject FILE_NOT_FOUND \<and> r \<noteq> Reject UNSUPPORTED_FORMAT" by simp
  qed
  show ?thesis
    by (auto simp: extraction_try_def Let_def dest: codes commit
          split: prod.splits bool.splits option.splits loop_exit.splits)
qed

lemma extractItems_append:
  "fst (extractItems h tmp i pre s) = Completed \<Longrightarrow>
   extractItems h tmp i (pre @ rest) s
     = extractItems h tmp (i + length pre) rest (snd (extractItems h tmp i pre s))"
proof (induction pre arbitrary: i s)
  case Nil
  then show ?case by simp
next
  case (Cons it pre)
  then show ?case
    by (auto split: if_splits option.splits)
qed

lemma extractItems_safe_prefix:
  assumes "\<forall>k < length pre. isActive h (AtEntry (i + k)) \<and>
             (isFolder (pre ! k) \<or> isSafeEntryPath h (itemPath (i + k) (pre ! k)) tmp \<noteq> None)"
  shows "fst (extractItems h tmp i pre s) = Completed"
  using assms
proof (induction pre arbitrary: i s)
  case Nil
  then show ?case by simp
next
  case (Cons it pre)
  from Cons.prems have head: "isActive h (AtEntry i)"
    "isFolder it \<or> isSafeEntryPath h (itemPath i it) tmp \<noteq> None"
    by force+
  have tail: "\<forall>k < length pre. isActive h (AtEntry (Suc i + k)) \<and>
      (isFolder (pre ! k) \<or> isSafeEntryPath h (itemPath (Suc i + k) (pre ! k)) tmp \<noteq> None)"
  proof (intro allI impI)
    fix k assume "k < length pre"
    then have "Suc k < length (it # pre)" by simp
    with Cons.prems have "isActive h (AtEntry (i + Suc k)) \<and>
      (isFolder ((it # pre) ! Suc k) \<or>
       isSafeEntryPath h (itemPath (i + Suc k) ((it # pre) ! Suc k)) tmp \<noteq> None)"
      by blast
    then show "isActive h (AtEntry (Suc i + k)) \<and>
      (isFolder (pre ! k) \<or> isSafeEntryPath h (itemPath (Suc i + k) (pre ! k)) tmp \<noteq> None)"
      by simp
  qed
  from head Cons.IH[OF tail] show ?case
    by (auto simp: extractEntry_def split: option.splits)
qed

lemma extractItems_stops_at_unsafe:
  assumes "fst (extractItems h tmp i pre s) = Completed"
    and "isActive h (AtEntry (i + length pre))" "\<not> isFolder bad"
    and "isSafeEntryPath h (itemPath (i + length pre) bad) tmp = None"
  shows "extractItems h tmp i (pre @ bad # post) s
           = (Aborted UNARCHIVE_ENTRY_INVALID, snd (extractItems h tmp i pre s))"
  using assms by (simp add: extractItems_append extractEntry_def)

lemma siblings_diverge:
  "l \<noteq> n \<Longrightarrow> \<not> prefix (par @ [n]) (par @ [l]) \<and> \<not> prefix (par @ [l]) (par @ [n])"
  by simp



section \<open>Directories, free names and the move\<close>

lemma is_dir_put_frame:
  "\<not> prefix p q \<Longrightarrow> is_dir (fs_lookup q (fs_put p v t)) = is_dir (fs_lookup q t)"
proof (induction p arbitrary: q t)
  case Nil
  then show ?case by simp
next
  case (Cons s p)
  show ?case
  proof (cases t)
    case (RegFile b)
    then show ?thesis by simp
  next
    case (Directory es)
    show ?thesis
    proof (cases q)
      case Nil
      with Directory show ?thesis
        by (auto simp: is_dir_def split: option.splits)
    next
      case (Cons s' q')
      show ?thesis
      proof (cases "s' = s")
        case True
        with Cons.prems Cons have np: "\<not> prefix p q'" by auto
        then have "p \<noteq> []" by auto
        with Directory Cons True Cons.IH[OF np] show ?thesis
          by (auto simp: AList.update_conv' split: option.splits)
      next
        case False
        with Directory Cons show ?thesis
          by (auto simp: AList.update_conv' AList.delete_conv' split: option.splits)
      qed
    qed
  qed
qed

lemma is_dir_mkdir_at:
  assumes "is_dir (fs_lookup q t)"
  shows "is_dir (fs_lookup q (mkdir_at p t))"
proof (cases "p \<noteq> [] \<and> fs_lookup p t = None \<and> is_dir (fs_lookup (butlast p) t)")
  case False
  with assms show ?thesis by (auto simp: mkdir_at_def)
next
  case True
  have "\<not> prefix p q"
  proof
    assume "prefix p q"
    then obtain r where "q = p @ r" by (auto simp: prefix_def)
    with True have "fs_lookup q t = None" by (simp add: fs_lookup_append)
    with assms show False by (simp add: is_dir_def)
  qed
  with assms True show ?thesis
    by (simp add: mkdir_at_def is_dir_put_frame)
qed

lemma is_dir_foldl_mkdir_at:
  "is_dir (fs_lookup q t) \<Longrightarrow> is_dir (fs_lookup q (foldl (\<lambda>u p. mkdir_at p u) t ps))"
  by (induction ps arbitrary: t) (simp_all add: is_dir_mkdir_at)

lemma is_dir_mkdirs: "is_dir (fs_lookup q t) \<Longrightarrow> is_dir (fs_lookup q (snd (mkdirs h f t)))"
  by (simp add: mkdirs_def Let_def is_dir_foldl_mkdir_at)














section \<open>Files the system finds\<close>



lemma file_exists_I: "locate h f t = Some p \<Longrightarrow> fs_lookup p t \<noteq> None \<Longrightarrow> file_exists h f t"
  by (simp add: file_exists_def)

lemma locate_keeps:
  assumes "locate h f t = Some p"
    and "\<And>q. is_dir (fs_lookup q t) \<Longrightarrow> is_dir (fs_lookup q t')"
  shows "locate h f t' = Some p"
  using assms by (auto simp: locate_reachable intro: reachable_mono)

lemma locate_mkdirs: "locate h f t = Some p \<Longrightarrow> locate h f (snd (mkdirs h g t)) = Some p"
  by (erule locate_keeps) (rule is_dir_mkdirs)

lemma openInArchive_SomeD:
  assumes "openInArchive h f t = Some items"
  shows "\<exists>b. locate h f t = Some (resolve h f) \<and> fileAt (resolve h f) t = Some b
           \<and> sevenZip h b = Some items"
  using assms
  by (auto simp: openInArchive_def fileAt_def split: option.splits node.splits
        dest: locate_SomeD)

lemma openInArchive_I:
  "locate h f t = Some p \<Longrightarrow> fileAt p t = Some b \<Longrightarrow> openInArchive h f t = sevenZip h b"
  by (auto simp: openInArchive_def fileAt_def split: option.splits node.splits)

lemma openInArchive_mkdirs:
  "openInArchive h f t = Some items \<Longrightarrow> openInArchive h f (snd (mkdirs h g t)) = Some items"
proof -
  assume "openInArchive h f t = Some items"
  from openInArchive_SomeD[OF this] obtain b where
    b: "locate h f t = Some (resolve h f)" "fileAt (resolve h f) t = Some b"
      "sevenZip h b = Some items"
    by blast
  from locate_mkdirs[OF b(1)] b(2,3) show ?thesis
    by (simp add: openInArchive_I[where b = b] mkdirs_fileAt)
qed



section \<open>The names beside the destination\<close>






section \<open>Moving the staging directory onto the destination\<close>




lemma sibling_prefix: "prefix (par @ [a]) (par @ [b]) \<longleftrightarrow> a = b"
  by simp





section \<open>The iOS engine\<close>

lemma ns_locate_SomeD: "ns_locate ih s t = Some p \<Longrightarrow> p = canon (ns_names ih s)"
  by (auto simp: ns_locate_def split: if_splits dest: walk_SomeD)








lemma listAndCommit_codes:
  "fst (listAndCommit ih tmp outp t) \<noteq> IosReject FILE_NOT_FOUND \<and>
   fst (listAndCommit ih tmp outp t) \<noteq> IosReject UNSUPPORTED_FORMAT"
  by (simp add: listAndCommit_def Let_def split: prod.splits bool.splits)

lemma extractCBRFile_codes:
  "fst (extractCBRFile ih a tmp outp t) \<noteq> IosReject FILE_NOT_FOUND \<and>
   fst (extractCBRFile ih a tmp outp t) \<noteq> IosReject UNSUPPORTED_FORMAT"
  using listAndCommit_codes[of ih tmp outp]
  by (simp add: extractCBRFile_def split: option.splits prod.splits bool.splits)

lemma extractCBZFile_codes:
  "fst (extractCBZFile ih a tmp outp t) \<noteq> IosReject FILE_NOT_FOUND \<and>
   fst (extractCBZFile ih a tmp outp t) \<noteq> IosReject UNSUPPORTED_FORMAT"
  using listAndCommit_codes[of ih tmp outp]
  by (simp add: extractCBZFile_def split: option.splits prod.splits bool.splits)




text \<open>A request that is rejected for its archive or its format.\<close>
lemma unarchive_block_precondition:
  "(fst (unarchive_block ih a outp st) = IosReject FILE_NOT_FOUND \<longrightarrow>
      ios_disk (snd (unarchive_block ih a outp st)) = ios_disk st) \<and>
   (fst (unarchive_block ih a outp st) = IosReject UNSUPPORTED_FORMAT \<longrightarrow>
      ios_disk (snd (unarchive_block ih a outp st))
        = removeItemAtPath ih (ios_tempPath ih outp)
            (snd (createDirectoryAtPath ih (ios_tempPath ih outp) (ios_disk st))))"
proof -
  have cbr: "r \<noteq> IosReject FILE_NOT_FOUND \<and> r \<noteq> IosReject UNSUPPORTED_FORMAT"
    if "extractCBRFile ih a (ios_tempPath ih outp) outp t = (r, t')" for t r t'
    using extractCBRFile_codes[of ih a "ios_tempPath ih outp" outp t] that by simp
  have cbz: "r \<noteq> IosReject FILE_NOT_FOUND \<and> r \<noteq> IosReject UNSUPPORTED_FORMAT"
    if "extractCBZFile ih a (ios_tempPath ih outp) outp t = (r, t')" for t r t'
    using extractCBZFile_codes[of ih a "ios_tempPath ih outp" outp t] that by simp
  show ?thesis
    by (auto simp: unarchive_block_def Let_def split: if_splits prod.splits bool.splits
          dest: cbr cbz)
qed

lemma makePath_fileAt: "fileAt q (snd (makePath cur ns t)) = fileAt q t"
  by (induction ns arbitrary: cur t) (simp_all add: fileAt_mkdir_at)

lemma createDirectoryAtPath_fileAt: "fileAt q (snd (createDirectoryAtPath ih s t)) = fileAt q t"
  by (simp add: createDirectoryAtPath_def makePath_fileAt)

lemma prune_keeps_files:
  "prune fails p n = Some n' \<Longrightarrow> fileAt r n' = Some b \<Longrightarrow> fileAt r n = Some b"
proof (induction fails p n arbitrary: n' r rule: prune.induct)
  case (1 fails p b')
  then show ?case by (auto split: if_splits)
next
  case (2 fails p es)
  define K where "K = (\<lambda>e :: string \<times> node. case prune fails (p @ [fst e]) (snd e) of
                         None \<Rightarrow> [] | Some c \<Rightarrow> [(fst e, c)])"
  have kept: "n' = Directory (concat (map K (listEntries es)))"
    using 2(2) by (auto simp: K_def Let_def split: if_splits)
  from 2(3) kept obtain k r' where r: "r = k # r'"
    by (cases r) (auto simp: fileAt_Nil)
  from 2(3) kept r obtain c' where
    c': "map_of (concat (map K (listEntries es))) k = Some c'" "fileAt r' c' = Some b"
    by (auto simp: fileAt_Cons split: option.splits)
  from map_of_SomeD[OF c'(1)] obtain e where
    e: "e \<in> set (listEntries es)" "(k, c') \<in> set (K e)"
    by auto
  then have ke: "fst e = k" and pr: "prune fails (p @ [fst e]) (snd e) = Some c'"
    by (auto simp: K_def split: option.splits)
  from 2(1)[OF e(1) pr c'(2)] have "fileAt r' (snd e) = Some b" .
  moreover from e(1) ke have "map_of es k = Some (snd e)"
    using listEntries_iff[of k "snd e" es] by (cases e) auto
  ultimately show ?case
    by (simp add: r fileAt_Cons)
qed

lemma remove_tree_keeps_files:
  assumes "fileAt q (remove_tree fails p t) = Some b"
  shows "fileAt q t = Some b"
proof (cases "fs_lookup p t")
  case None
  with assms show ?thesis by (simp add: remove_tree_def)
next
  case (Some n)
  show ?thesis
  proof (cases "p = []")
    case True
    with Some have n: "n = t" by simp
    show ?thesis
    proof (cases "prune (\<lambda>q. q = [] \<or> fails q) [] t")
      case None
      with assms Some True show ?thesis by (simp add: remove_tree_def)
    next
      case (Some r)
      with assms \<open>fs_lookup p t = Some n\<close> True n have "fileAt q r = Some b"
        by (simp add: remove_tree_def)
      with Some show ?thesis by (rule prune_keeps_files)
    qed
  next
    case False
    with assms Some have put: "fileAt q (fs_put p (prune fails p n) t) = Some b"
      by (simp add: remove_tree_def)
    show ?thesis
    proof (cases "prefix p q")
      case no: False
      with put show ?thesis by (simp add: fileAt_put_frame)
    next
      case True
      then obtain r where q: "q = p @ r" by (auto simp: prefix_def)
      from Some False have par: "is_dir (fs_lookup (butlast p) t)"
        by (intro lookup_parent_is_dir) simp_all
      from False par have new: "fs_lookup p (fs_put p (prune fails p n) t) = prune fails p n"
        by (rule fs_lookup_put_same)
      with put q obtain n' where n': "prune fails p n = Some n'" "fileAt r n' = Some b"
        by (auto simp: fileAt_append split: option.splits)
      from prune_keeps_files[OF n'] Some q show ?thesis
        by (simp add: fileAt_append)
    qed
  qed
qed

lemma removeItemAtPath_keeps_files:
  "fileAt q (removeItemAtPath ih s t) = Some b \<Longrightarrow> fileAt q t = Some b"
  by (auto simp: removeItemAtPath_def split: option.splits dest: remove_tree_keeps_files)

lemma removeItemAtPath_fileAt:
  "\<not> prefix (canon (ns_names ih s)) q \<Longrightarrow> fileAt q (removeItemAtPath ih s t) = fileAt q t"
  by (auto simp: removeItemAtPath_def remove_tree_fileAt split: option.splits
        dest: ns_locate_SomeD)

lemma makePath_walk:
  assumes "\<forall>q. strict_prefix q ns \<longrightarrow> is_dir (fs_lookup (canon (pre @ q)) t)"
    and "ns \<noteq> []"
  shows "makePath (canon pre) ns t
           = (is_dir (fs_lookup (canon (pre @ ns)) (mkdir_at (canon (pre @ ns)) t)),
              mkdir_at (canon (pre @ ns)) t)"
  using assms
proof (induction ns arbitrary: pre)
  case Nil
  then show ?case by simp
next
  case (Cons n ns)
  from Cons.prems(1)[rule_format, of "[]"] have here: "is_dir (fs_lookup (canon pre) t)"
    by simp
  have cur: "canon (canon pre @ [n]) = canon (pre @ [n])"
    by (rule canon_canon_append)
  show ?case
  proof (cases "ns = []")
    case True
    with here cur show ?thesis by simp
  next
    case False
    from Cons.prems(1)[rule_format, of "[n]"] have "is_dir (fs_lookup (canon (pre @ [n])) t)"
      using False by (simp add: strict_prefix_def)
    then have same: "mkdir_at (canon (pre @ [n])) t = t"
      by (auto simp: mkdir_at_def is_dir_def split: option.splits)
    have "\<forall>q. strict_prefix q ns \<longrightarrow> is_dir (fs_lookup (canon ((pre @ [n]) @ q)) t)"
    proof (intro allI impI)
      fix q assume "strict_prefix q ns"
      then have "strict_prefix (n # q) (n # ns)" by (auto simp: strict_prefix_def)
      with Cons.prems(1) show "is_dir (fs_lookup (canon ((pre @ [n]) @ q)) t)"
        by auto
    qed
    from Cons.IH[OF this False] here cur same show ?thesis
      by simp
  qed
qed

lemma fs_put_cancel:
  "fs_lookup p t = None \<Longrightarrow> fs_put p None (fs_put p (Some n) t) = t"
proof (induction p arbitrary: t)
  case Nil
  then show ?case by simp
next
  case (Cons s p)
  show ?case
  proof (cases t)
    case (RegFile b)
    then show ?thesis by simp
  next
    case (Directory es)
    show ?thesis
    proof (cases "p = []")
      case True
      with Cons.prems Directory have "map_of es s = None"
        by (auto split: option.splits)
      then have "AList.delete s es = es"
        by (simp add: AList.delete_id map_of_eq_None_iff)
      with True Directory show ?thesis
        by (simp add: AList.delete_update_same)
    next
      case False
      show ?thesis
      proof (cases "map_of es s")
        case None
        with False Directory show ?thesis by simp
      next
        case (Some c)
        with Cons.prems Directory have "fs_lookup p c = None" by simp
        from Cons.IH[OF this] have "fs_put p None (fs_put p (Some n) c) = c" .
        with False Directory Some show ?thesis
          by (simp add: AList.update_conv' AList.update_triv)
      qed
    qed
  qed
qed

text \<open>
  The staging directory of a request that is rejected for its format: made and removed
  again, when its path can be walked, its name is free and its parent is there.
\<close>
lemma staging_made_and_removed:
  assumes loc: "ns_locate ih s t = Some p" and free: "fs_lookup p t = None"
    and par: "is_dir (fs_lookup (butlast p) t)" and ok: "\<not> removeItemFails ih p"
  shows "removeItemAtPath ih s (snd (createDirectoryAtPath ih s t)) = t"
proof -
  let ?raw = "ns_names ih s"
  from loc have s: "s \<noteq> []" and p: "p = canon ?raw" and reach: "reachable ?raw t"
    by (auto simp: ns_locate_def split: if_splits dest: walk_SomeD)
  from free have pne: "p \<noteq> []" by auto
  with p have raw: "?raw \<noteq> []" by (auto simp: canon_def)
  have "makePath (canon []) ?raw t
      = (is_dir (fs_lookup (canon ([] @ ?raw)) (mkdir_at (canon ([] @ ?raw)) t)),
         mkdir_at (canon ([] @ ?raw)) t)"
    using reach raw by (intro makePath_walk) (simp_all add: reachable_iff)
  then have made: "snd (createDirectoryAtPath ih s t) = mkdir_at p t"
    using s p by (simp add: createDirectoryAtPath_def canon_def)
  let ?t1 = "fs_put p (Some (Directory [])) t"
  have t1: "mkdir_at p t = ?t1"
    using pne free par by (simp add: mkdir_at_def)
  have new: "fs_lookup p ?t1 = Some (Directory [])"
    using pne par by (rule fs_lookup_put_same)
  have "reachable ?raw ?t1"
    using reach
  proof (rule reachable_mono)
    fix q assume "is_dir (fs_lookup (canon q) t)"
    then have "is_dir (fs_lookup (canon q) (mkdir_at p t))" by (rule is_dir_mkdir_at)
    then show "is_dir (fs_lookup (canon q) ?t1)" by (simp add: t1)
  qed
  then have loc1: "ns_locate ih s ?t1 = Some p"
    using s p by (simp add: ns_locate_def walk_def)
  have "removeItemAtPath ih s ?t1 = fs_put p None ?t1"
    using loc1 new pne ok
    by (simp add: removeItemAtPath_def remove_tree_def prune_empty del: prune.simps)
  also have "\<dots> = t"
    using free by (rule fs_put_cancel)
  finally show ?thesis
    by (simp add: made t1)
qed

section \<open>The commit step\<close>

text \<open>
  C1. A request whose commit step fails should leave the destination as it was before the
  call. The module removes the destination before it tries to move the staging directory,
  so on a host where neither \<^verbatim>\<open>Files.move\<close> nor \<^verbatim>\<open>renameTo\<close> succeeds the request ends
  with \<^verbatim>\<open>ATOMIC_MOVE_FAILED\<close> and the destination, which held \<^verbatim>\<open>old.txt\<close>, is gone.
\<close>
theorem failed_commit_loses_destination:
  "fs_lookup [''app'', ''files'', ''out''] (disk idle_state)
     = Some (Directory [(''old.txt'', RegFile ''old'')]) \<and>
   fst (extraction_job faulty_host ''/app/files/two.zip'' ''/app/files/out'' idle_state)
     = Reject ATOMIC_MOVE_FAILED \<and>
   fs_lookup [''app'', ''files'', ''out'']
     (disk (snd (extraction_job faulty_host ''/app/files/two.zip'' ''/app/files/out'' idle_state)))
     = None"
  by code_simp

section \<open>The sandbox check\<close>

text \<open>
  C3. The validator should accept a path only when an allowed root is a directory prefix of
  its canonical form. \<^verbatim>\<open>isPathAllowed\<close> compares strings, so a sibling of a root whose name
  extends the root's name is accepted: with the files directory \<^verbatim>\<open>/app/files\<close> the output
  path \<^verbatim>\<open>/app/files_evil/out\<close> passes, the call is launched, and the extraction writes
  below \<^verbatim>\<open>/app/files_evil\<close>, outside both roots.
\<close>
theorem sibling_of_root_passes_sandbox:
  "isPathAllowed demo_host ''/app/files_evil/out'' \<and>
   \<not> prefix (resolve demo_host (filesDir demo_host))
       (resolve demo_host (newFile ''/app/files_evil/out'')) \<and>
   \<not> prefix (resolve demo_host (cacheDir demo_host))
       (resolve demo_host (newFile ''/app/files_evil/out'')) \<and>
   fst (unarchive demo_host ''/app/files/two.zip'' ''/app/files_evil/out'' idle_state) = Launched \<and>
   fileAt [''app'', ''files_evil'', ''out'', ''a.txt'']
     (disk (snd (extraction_job demo_host ''/app/files/two.zip'' ''/app/files_evil/out''
                   idle_state)))
     = Some ''hello''"
  by code_simp

section \<open>Entries that fail to decode\<close>

text \<open>
  C8. An entry whose decoding fails should have its partial file deleted and be left out
  of the result. The module deletes the file of a failed entry only when it is empty: for
  an archive whose single entry \<^verbatim>\<open>page.jpg\<close> delivers three bytes and then reports
  \<^verbatim>\<open>DATAERROR\<close>, the three bytes stay in the staging directory, are committed, and the
  request resolves with \<^verbatim>\<open>page.jpg\<close> in its file list.
\<close>
theorem failed_entry_keeps_partial_file:
  "sevenZip demo_host ''damaged''
     = Some [\<lparr>isFolder = False, item_path = Some ''page.jpg'', chunks = [''abc''],
              extractSlow = Some DATAERROR\<rparr>] \<and>
   fst (extraction_job demo_host ''/app/files/damaged.zip'' ''/app/files/out'' idle_state)
     = Resolve [\<lparr>path = ''/app/files/out/page.jpg'', name = ''page.jpg'',
                 relativePath = ''page.jpg'', size_bytes = 3\<rparr>] ''/app/files/out'' \<and>
   fileAt [''app'', ''files'', ''out'', ''page.jpg'']
     (disk (snd (extraction_job demo_host ''/app/files/damaged.zip'' ''/app/files/out''
                   idle_state)))
     = Some ''abc''"
  by code_simp

section \<open>Entries that leave the staging root\<close>

text \<open>
  C2, as stated: an archive with any entry whose path leaves the staging root should make
  the whole request fail. The loop skips folder items before the sanitizer is called: the
  archive whose only entry is the folder \<^verbatim>\<open>../../evil\<close>, which the sanitizer rejects, is
  extracted with success.
\<close>
theorem unsafe_folder_entry_is_skipped:
  "sevenZip demo_host ''folder-escape''
     = Some [\<lparr>isFolder = True, item_path = Some ''../../evil'', chunks = [],
              extractSlow = Some OK\<rparr>] \<and>
   isSafeEntryPath demo_host ''../../evil'' (stagingDir demo_host ''/app/files/out'') = None \<and>
   fst (extraction_job demo_host ''/app/files/folder.zip'' ''/app/files/out'' busy_state)
     = Resolve [] ''/app/files/out''"
  by code_simp

text \<open>
  C2, amended to entries that are not folders. Take a request whose archive exists and
  opens, whose staging directory could be made, and whose destination has a proper last
  name. Let \<open>bad\<close> be the first entry that is not a folder and whose path, joined to the
  staging root and made canonical, is not below the staging root, and let the coroutine be
  active up to that entry. Then the request is rejected with \<^verbatim>\<open>UNARCHIVE_ENTRY_INVALID\<close>;
  the loop stops in the state the entries before \<open>bad\<close> left, so nothing of \<open>bad\<close> or of a
  later entry is written; no regular file outside the staging root is created or changed;
  and the destination is what it was. (Folder entries are skipped unchecked and never
  made. A separator at the start of a path does not on its own make the path leave the
  staging root: \<^verbatim>\<open>File(parent, child)\<close> joins the path below the parent.)
\<close>
theorem unsafe_file_entry_aborts_request:
  assumes uuid: "CHR ''/'' \<notin> set (tempUUID h)"
    and named: "destination_named h outputPath"
    and active: "isActive h BeforeStaging" "isActive h AfterOpen"
    and staged: "fst (mkdirs h (stagingDir h outputPath) (disk st))"
    and opened: "openInArchive h (newFile archivePath) (disk st) = Some (pre @ bad # post)"
    and before: "\<forall>k < length pre. isActive h (AtEntry k) \<and>
        (isFolder (pre ! k) \<or>
         isSafeEntryPath h (itemPath k (pre ! k)) (stagingDir h outputPath) \<noteq> None)"
    and reached: "isActive h (AtEntry (length pre))"
    and regular: "\<not> isFolder bad"
    and unsafe: "isSafeEntryPath h (itemPath (length pre) bad) (stagingDir h outputPath) = None"
  shows "fst (extraction_job h archivePath outputPath st) = Reject UNARCHIVE_ENTRY_INVALID \<and>
         (\<forall>s. extractItems h (stagingDir h outputPath) 0 (pre @ bad # post) s
                = (Aborted UNARCHIVE_ENTRY_INVALID,
                   snd (extractItems h (stagingDir h outputPath) 0 pre s))) \<and>
         (\<forall>q. \<not> prefix (resolve h (stagingDir h outputPath)) q \<longrightarrow>
                fileAt q (disk (snd (extraction_job h archivePath outputPath st)))
                  = fileAt q (disk st)) \<and>
         fs_lookup (resolve h (newFile outputPath))
             (disk (snd (extraction_job h archivePath outputPath st)))
           = fs_lookup (resolve h (newFile outputPath)) (disk st)"
proof -
  let ?tmp = "stagingDir h outputPath"
  let ?P = "resolve h ?tmp"
  let ?D = "resolve h (newFile outputPath)"
  let ?t = "disk st"
  let ?items = "pre @ bad # post"
  have cl: "clean (names ?tmp)" by (rule clean_stagingDir)
  from resolve_siblings[OF uuid named] obtain par l where
    P: "?P = par @ [tempDirName h]" and D: "?D = par @ [l]" and l: "l \<noteq> tempDirName h"
    by blast
  have div: "\<not> prefix ?P ?D" "\<not> prefix ?D ?P"
    using P D l by simp_all
  have pre_ok: "\<And>s. fst (extractItems h ?tmp 0 pre s) = Completed"
    using before extractItems_safe_prefix[of pre h 0 ?tmp] by simp
  have stop: "\<And>s. extractItems h ?tmp 0 ?items s
      = (Aborted UNARCHIVE_ENTRY_INVALID, snd (extractItems h ?tmp 0 pre s))"
    using extractItems_stops_at_unsafe[OF pre_ok, of bad post] reached regular unsafe by simp
  from openInArchive_SomeD[OF opened] obtain b where
    loc: "locate h (newFile archivePath) ?t = Some (resolve h (newFile archivePath))"
    and arch: "fileAt (resolve h (newFile archivePath)) ?t = Some b"
    by blast
  have found: "file_exists h (newFile archivePath) ?t"
    using arch by (intro file_exists_I[OF loc]) (auto simp: fileAt_def split: option.splits)
  obtain t1 where made: "mkdirs h ?tmp ?t = (True, t1)"
    using staged by (cases "mkdirs h ?tmp ?t") simp
  have t1_files: "\<And>q. fileAt q t1 = fileAt q ?t"
    using mkdirs_fileAt[of _ h ?tmp ?t] by (simp add: made)
  have t1_dest: "fs_lookup ?D t1 = fs_lookup ?D ?t"
    using mkdirs_lookup[OF div(2), of ?t] by (simp add: made)
  have open1: "openInArchive h (newFile archivePath) t1 = Some ?items"
    using openInArchive_mkdirs[OF opened, of ?tmp] by (simp add: made)
  obtain t2 l2 where loop:
    "extractItems h ?tmp 0 ?items (t1, []) = (Aborted UNARCHIVE_ENTRY_INVALID, t2, l2)"
    using stop[of "(t1, [])"] by (cases "snd (extractItems h ?tmp 0 pre (t1, []))") simp
  let ?fin = "if file_exists h ?tmp t2 then deleteRecursively h ?tmp t2 else t2"
  have body: "extraction_try h archivePath outputPath ?t
      = (Reject UNARCHIVE_ENTRY_INVALID, t2, Some ?tmp)"
    by (simp only: extraction_try_def Let_def found active made open1 loop
          not_True_eq_False if_False prod.case bool.case option.case loop_exit.case)
  then have job: "extraction_job h archivePath outputPath st
      = (Reject UNARCHIVE_ENTRY_INVALID,
         st\<lparr>disk := ?fin, activeExtraction := False, currentJobRef := False\<rparr>)"
    by (simp add: extraction_job_def)
  have files: "\<And>q. \<not> prefix ?P q \<Longrightarrow> fileAt q ?fin = fileAt q ?t"
  proof -
    fix q assume q: "\<not> prefix ?P q"
    have "fileAt q ?fin = fileAt q t2"
      using q by (simp add: deleteRecursively_fileAt)
    also have "\<dots> = fileAt q t1"
      using extractItems_fileAt[OF cl q, of 0 ?items "(t1, [])"] by (simp add: loop)
    also have "\<dots> = fileAt q ?t"
      by (rule t1_files)
    finally show "fileAt q ?fin = fileAt q ?t" .
  qed
  have dest: "fs_lookup ?D ?fin = fs_lookup ?D ?t"
  proof -
    have "fs_lookup ?D ?fin = fs_lookup ?D t2"
      using div by (simp add: deleteRecursively_lookup)
    also have "\<dots> = fs_lookup ?D t1"
      using extractItems_lookup[OF cl div, of 0 ?items "(t1, [])"] by (simp add: loop)
    also have "\<dots> = fs_lookup ?D ?t"
      by (rule t1_dest)
    finally show ?thesis .
  qed
  from job stop files dest show ?thesis
    by simp
qed

theorem unsafe_file_entry_aborts_request_witness:
  "sevenZip demo_host ''file-escape''
     = Some ([\<lparr>isFolder = False, item_path = Some ''ok.txt'', chunks = [''fine''],
               extractSlow = Some OK\<rparr>]
             @ \<lparr>isFolder = False, item_path = Some ''../../evil'', chunks = [''pwn''],
                 extractSlow = Some OK\<rparr> # []) \<and>
   fst (extraction_job demo_host ''/app/files/slip.zip'' ''/app/files/out'' busy_state)
     = Reject UNARCHIVE_ENTRY_INVALID \<and>
   fileAt [''app'', ''evil'']
     (disk (snd (extraction_job demo_host ''/app/files/slip.zip'' ''/app/files/out'' busy_state)))
     = None \<and>
   fs_lookup [''app'', ''files'', ''out'']
     (disk (snd (extraction_job demo_host ''/app/files/slip.zip'' ''/app/files/out'' busy_state)))
     = Some (Directory [(''old.txt'', RegFile ''old'')])"
proof -
  let ?ok = "\<lparr>isFolder = False, item_path = Some ''ok.txt'', chunks = [''fine''],
              extractSlow = Some OK\<rparr>"
  let ?bad = "\<lparr>isFolder = False, item_path = Some ''../../evil'', chunks = [''pwn''],
               extractSlow = Some OK\<rparr>"
  have dec: "sevenZip demo_host ''file-escape'' = Some ([?ok] @ ?bad # [])"
    by code_simp
  have uuid: "CHR ''/'' \<notin> set (tempUUID demo_host)"
    by code_simp
  have named: "destination_named demo_host ''/app/files/out''"
    by code_simp
  have active: "isActive demo_host BeforeStaging" "isActive demo_host AfterOpen"
    by code_simp+
  have staged: "fst (mkdirs demo_host (stagingDir demo_host ''/app/files/out'') (disk busy_state))"
    by code_simp
  have opened: "openInArchive demo_host (newFile ''/app/files/slip.zip'') (disk busy_state)
      = Some ([?ok] @ ?bad # [])"
    by code_simp
  have safe0: "isSafeEntryPath demo_host (itemPath 0 ?ok) (stagingDir demo_host ''/app/files/out'')
      \<noteq> None"
    by code_simp
  have act: "\<And>c. isActive demo_host c"
    by (simp add: demo_host_def)
  have before: "\<forall>k < length [?ok]. isActive demo_host (AtEntry k) \<and>
        (isFolder ([?ok] ! k) \<or>
         isSafeEntryPath demo_host (itemPath k ([?ok] ! k))
           (stagingDir demo_host ''/app/files/out'') \<noteq> None)"
    using safe0 act by simp
  have reached: "isActive demo_host (AtEntry (length [?ok]))"
    by (rule act)
  have regular: "\<not> isFolder ?bad"
    by simp
  have unsafe: "isSafeEntryPath demo_host (itemPath (length [?ok]) ?bad)
      (stagingDir demo_host ''/app/files/out'') = None"
    by code_simp
  have outside: "\<not> prefix (resolve demo_host (stagingDir demo_host ''/app/files/out''))
      [''app'', ''evil'']"
    by code_simp
  have was: "fileAt [''app'', ''evil''] (disk busy_state) = None"
    by code_simp
  have dest: "resolve demo_host (newFile ''/app/files/out'') = [''app'', ''files'', ''out'']"
    by code_simp
  have old: "fs_lookup [''app'', ''files'', ''out''] (disk busy_state)
      = Some (Directory [(''old.txt'', RegFile ''old'')])"
    by code_simp
  note main = unsafe_file_entry_aborts_request
    [OF uuid named active staged opened before reached regular unsafe]
  from main have r1:
    "fst (extraction_job demo_host ''/app/files/slip.zip'' ''/app/files/out'' busy_state)
       = Reject UNARCHIVE_ENTRY_INVALID"
    by blast
  from main outside was have r2:
    "fileAt [''app'', ''evil'']
       (disk (snd (extraction_job demo_host ''/app/files/slip.zip'' ''/app/files/out''
                     busy_state))) = None"
    by simp
  from main dest old have r3:
    "fs_lookup [''app'', ''files'', ''out'']
       (disk (snd (extraction_job demo_host ''/app/files/slip.zip'' ''/app/files/out''
                     busy_state)))
       = Some (Directory [(''old.txt'', RegFile ''old'')])"
    by simp
  from dec r1 r2 r3 show ?thesis
    by blast
qed

section \<open>Admission\<close>

text \<open>
  C9. The admission checks are ordered busy-first. While an extraction is active every call
  is answered \<^verbatim>\<open>UNARCHIVE_BUSY\<close> and leaves the module as it was, whatever the output path
  is. \<^verbatim>\<open>UNARCHIVE_INVALID_PATH\<close> is produced only when the busy transition succeeded and the
  path is outside the allowed roots, and then the busy flag is released again before the
  rejection.
\<close>
theorem busy_check_precedes_path_check:
  "(activeExtraction st \<longrightarrow>
      unarchive h archivePath outputPath st = (RejectedAtOnce UNARCHIVE_BUSY, st)) \<and>
   (fst (unarchive h archivePath outputPath st) = RejectedAtOnce UNARCHIVE_INVALID_PATH \<longrightarrow>
      \<not> activeExtraction st \<and> \<not> isPathAllowed h outputPath \<and>
      \<not> activeExtraction (snd (unarchive h archivePath outputPath st))) \<and>
   (\<not> activeExtraction st \<and> \<not> isPathAllowed h outputPath \<longrightarrow>
      fst (unarchive h archivePath outputPath st) = RejectedAtOnce UNARCHIVE_INVALID_PATH)"
  by (simp add: unarchive_def Let_def)

theorem busy_check_precedes_path_check_witness:
  "activeExtraction busy_state \<and> \<not> isPathAllowed demo_host ''/sdcard/Download'' \<and>
   unarchive demo_host ''/app/files/two.zip'' ''/sdcard/Download'' busy_state
     = (RejectedAtOnce UNARCHIVE_BUSY, busy_state) \<and>
   \<not> activeExtraction idle_state \<and>
   fst (unarchive demo_host ''/app/files/two.zip'' ''/sdcard/Download'' idle_state)
     = RejectedAtOnce UNARCHIVE_INVALID_PATH \<and>
   \<not> activeExtraction
       (snd (unarchive demo_host ''/app/files/two.zip'' ''/sdcard/Download'' idle_state))"
proof -
  have busy: "activeExtraction busy_state"
    by (simp add: busy_state_def)
  have idle: "\<not> activeExtraction idle_state"
    by (simp add: idle_state_def)
  have outside: "\<not> isPathAllowed demo_host ''/sdcard/Download''"
    by code_simp
  note at_busy = busy_check_precedes_path_check
    [of busy_state demo_host "''/app/files/two.zip''" "''/sdcard/Download''"]
  note at_idle = busy_check_precedes_path_check
    [of idle_state demo_host "''/app/files/two.zip''" "''/sdcard/Download''"]
  from at_busy busy
  have r1: "unarchive demo_host ''/app/files/two.zip'' ''/sdcard/Download'' busy_state
              = (RejectedAtOnce UNARCHIVE_BUSY, busy_state)"
    by blast
  from at_idle idle outside
  have r2: "fst (unarchive demo_host ''/app/files/two.zip'' ''/sdcard/Download'' idle_state)
              = RejectedAtOnce UNARCHIVE_INVALID_PATH"
    by blast
  with at_idle
  have r3: "\<not> activeExtraction
              (snd (unarchive demo_host ''/app/files/two.zip'' ''/sdcard/Download'' idle_state))"
    by blast
  from busy idle outside r1 r2 r3 show ?thesis
    by blast
qed

section \<open>Single flight\<close>

text \<open>
  C4. While an extraction is in flight a call is answered \<^verbatim>\<open>UNARCHIVE_BUSY\<close>, and after the
  request has come to its end, with any outcome, the next call should be admitted. The
  Android module releases the busy flag in the \<^verbatim>\<open>finally\<close> block of the coroutine, and a
  coroutine that is cancelled before it starts runs nothing of its block. Here a call is
  admitted, which sets the flag; \<^verbatim>\<open>cancelUnarchive\<close> cancels the coroutine before a thread
  has taken it up; the coroutine completes without settling the promise and leaves the
  module as it was, with the flag set; and the next call, for an output path below an
  allowed root, is answered \<^verbatim>\<open>UNARCHIVE_BUSY\<close>.
\<close>
theorem cancelled_before_start_keeps_busy:
  "fst (unarchive cancelled_host ''/app/files/two.zip'' ''/app/files/out'' idle_state) = Launched \<and>
   activeExtraction
     (snd (unarchive cancelled_host ''/app/files/two.zip'' ''/app/files/out'' idle_state)) \<and>
   launch cancelled_host ''/app/files/two.zip'' ''/app/files/out''
       (snd (unarchive cancelled_host ''/app/files/two.zip'' ''/app/files/out'' idle_state))
     = (None, snd (unarchive cancelled_host ''/app/files/two.zip'' ''/app/files/out'' idle_state)) \<and>
   isPathAllowed cancelled_host ''/app/cache/next'' \<and>
   fst (unarchive cancelled_host ''/app/files/two.zip'' ''/app/cache/next''
          (snd (launch cancelled_host ''/app/files/two.zip'' ''/app/files/out''
                  (snd (unarchive cancelled_host ''/app/files/two.zip'' ''/app/files/out''
                          idle_state)))))
     = RejectedAtOnce UNARCHIVE_BUSY"
  by code_simp

section \<open>Cleanup\<close>

text \<open>
  C5. On every exit of an admitted request the staging directory should be removed. The
  module makes, tests and deletes the staging directory under the path it builds from the
  output path as written. For the output path \<^verbatim>\<open>/app/files/x/../out\<close>, where \<^verbatim>\<open>x\<close>
  does not exist, the path is accepted (its canonical form is below the files directory)
  and \<^verbatim>\<open>mkdirs\<close> makes the staging directory at its canonical place
  \<^verbatim>\<open>/app/files/unarchive_temp_...\<close>, into which the entries are written. The system finds
  neither the staging directory nor the destination under their paths through \<^verbatim>\<open>x\<close>: the
  move fails, the request is rejected with \<^verbatim>\<open>ATOMIC_MOVE_FAILED\<close>, and in the
  \<^verbatim>\<open>finally\<close> block \<^verbatim>\<open>exists\<close> is false, so that nothing is deleted. The busy flag is
  released; the staging directory stays, with the extracted files.
\<close>
theorem dotted_output_path_leaves_staging_directory:
  "isPathAllowed demo_host ''/app/files/x/../out'' \<and>
   fs_lookup [''app'', ''files'', ''x''] (disk busy_state) = None \<and>
   resolve demo_host (stagingDir demo_host ''/app/files/x/../out'')
     = [''app'', ''files'', ''unarchive_temp_1b4e6790-0c3a-42d1-8f56-0242ac120002_42''] \<and>
   fs_lookup [''app'', ''files'', ''unarchive_temp_1b4e6790-0c3a-42d1-8f56-0242ac120002_42'']
     (disk busy_state) = None \<and>
   fst (extraction_job demo_host ''/app/files/two.zip'' ''/app/files/x/../out'' busy_state)
     = Reject ATOMIC_MOVE_FAILED \<and>
   activeExtraction
     (snd (extraction_job demo_host ''/app/files/two.zip'' ''/app/files/x/../out'' busy_state))
     = False \<and>
   fs_lookup [''app'', ''files'', ''unarchive_temp_1b4e6790-0c3a-42d1-8f56-0242ac120002_42'']
     (disk (snd (extraction_job demo_host ''/app/files/two.zip'' ''/app/files/x/../out''
                   busy_state)))
     = Some (Directory [(''a.txt'', RegFile ''hello''),
                        (''dir'', Directory [(''b.txt'', RegFile ''0123456789'')])])"
  by code_simp

section \<open>The returned list\<close>






section \<open>Precondition errors\<close>

text \<open>
  C7, as stated: a request rejected with \<^verbatim>\<open>UNSUPPORTED_FORMAT\<close> should have created no
  directory. The iOS module makes its staging directory, with the directories missing
  above it, before it looks at the extension of the archive, and removes the staging
  directory alone when the extension is not supported: for the archive
  \<^verbatim>\<open>/docs/notes.txt\<close> and the output path \<^verbatim>\<open>/docs/new/out\<close> the request is rejected
  with \<^verbatim>\<open>UNSUPPORTED_FORMAT\<close> and the directory \<^verbatim>\<open>/docs/new\<close>, absent before, exists.
\<close>
theorem unsupported_format_leaves_parent_directory:
  "fs_lookup [''docs'', ''new''] (ios_disk ios_busy_state) = None \<and>
   fst (unarchive_block ios_demo_host ''/docs/notes.txt'' ''/docs/new/out'' ios_busy_state)
     = IosReject UNSUPPORTED_FORMAT \<and>
   fs_lookup [''docs'', ''new'']
     (ios_disk (snd (unarchive_block ios_demo_host ''/docs/notes.txt'' ''/docs/new/out''
                       ios_busy_state)))
     = Some (Directory [])"
  by code_simp

text \<open>
  C7, amended. A request rejected with \<^verbatim>\<open>FILE_NOT_FOUND\<close> has changed nothing on the
  disk, on either module. \<^verbatim>\<open>UNSUPPORTED_FORMAT\<close> is produced by the iOS module only. A
  request it rejects so has written no file: every regular file on the disk afterwards was
  there before with the same bytes, and no regular file outside the staging directory has
  changed. It has made the staging directory and removed it again: when the staging path
  can be walked, its name is free, its parent directory exists and the removal is not
  refused, the disk is what it was.
\<close>
theorem precondition_rejections:
  "(fst (extraction_job h archivePath outputPath st) = Reject FILE_NOT_FOUND \<longrightarrow>
      disk (snd (extraction_job h archivePath outputPath st)) = disk st) \<and>
   fst (extraction_job h archivePath outputPath st) \<noteq> Reject UNSUPPORTED_FORMAT \<and>
   (fst (unarchive_block ih archivePath outputPath ist) = IosReject FILE_NOT_FOUND \<longrightarrow>
      ios_disk (snd (unarchive_block ih archivePath outputPath ist)) = ios_disk ist) \<and>
   (fst (unarchive_block ih archivePath outputPath ist) = IosReject UNSUPPORTED_FORMAT \<longrightarrow>
      (\<forall>q b. fileAt q (ios_disk (snd (unarchive_block ih archivePath outputPath ist))) = Some b
               \<longrightarrow> fileAt q (ios_disk ist) = Some b) \<and>
      (\<forall>q. \<not> prefix (canon (ns_names ih (ios_tempPath ih outputPath))) q \<longrightarrow>
            fileAt q (ios_disk (snd (unarchive_block ih archivePath outputPath ist)))
              = fileAt q (ios_disk ist)) \<and>
      (\<forall>p. ns_locate ih (ios_tempPath ih outputPath) (ios_disk ist) = Some p \<and>
            fs_lookup p (ios_disk ist) = None \<and>
            is_dir (fs_lookup (butlast p) (ios_disk ist)) \<and> \<not> removeItemFails ih p \<longrightarrow>
            ios_disk (snd (unarchive_block ih archivePath outputPath ist)) = ios_disk ist))"
proof -
  let ?tmp = "ios_tempPath ih outputPath"
  let ?t = "ios_disk ist"
  let ?t' = "removeItemAtPath ih ?tmp (snd (createDirectoryAtPath ih ?tmp ?t))"
  have android:
    "(fst (extraction_job h archivePath outputPath st) = Reject FILE_NOT_FOUND \<longrightarrow>
        disk (snd (extraction_job h archivePath outputPath st)) = disk st) \<and>
     fst (extraction_job h archivePath outputPath st) \<noteq> Reject UNSUPPORTED_FORMAT"
    using extraction_try_cases[of h archivePath outputPath "disk st"]
    by (auto simp: extraction_job_def)
  note ios = unarchive_block_precondition[of ih archivePath outputPath ist]
  have kept: "\<forall>q b. fileAt q ?t' = Some b \<longrightarrow> fileAt q ?t = Some b"
  proof (intro allI impI)
    fix q b assume "fileAt q ?t' = Some b"
    then have "fileAt q (snd (createDirectoryAtPath ih ?tmp ?t)) = Some b"
      by (rule removeItemAtPath_keeps_files)
    then show "fileAt q ?t = Some b"
      by (simp add: createDirectoryAtPath_fileAt)
  qed
  have frame: "\<forall>q. \<not> prefix (canon (ns_names ih ?tmp)) q \<longrightarrow> fileAt q ?t' = fileAt q ?t"
    by (simp add: removeItemAtPath_fileAt createDirectoryAtPath_fileAt)
  have same: "\<forall>p. ns_locate ih ?tmp ?t = Some p \<and> fs_lookup p ?t = None \<and>
                  is_dir (fs_lookup (butlast p) ?t) \<and> \<not> removeItemFails ih p \<longrightarrow> ?t' = ?t"
    using staging_made_and_removed[of ih ?tmp ?t] by blast
  show ?thesis
  proof (intro conjI impI)
    assume "fst (extraction_job h archivePath outputPath st) = Reject FILE_NOT_FOUND"
    with android show "disk (snd (extraction_job h archivePath outputPath st)) = disk st"
      by blast
  next
    from android show "fst (extraction_job h archivePath outputPath st) \<noteq> Reject UNSUPPORTED_FORMAT"
      by blast
  next
    assume "fst (unarchive_block ih archivePath outputPath ist) = IosReject FILE_NOT_FOUND"
    with ios show "ios_disk (snd (unarchive_block ih archivePath outputPath ist)) = ios_disk ist"
      by blast
  next
    assume "fst (unarchive_block ih archivePath outputPath ist) = IosReject UNSUPPORTED_FORMAT"
    with ios have eq: "ios_disk (snd (unarchive_block ih archivePath outputPath ist)) = ?t'"
      by blast
    from kept show "\<forall>q b. fileAt q (ios_disk (snd (unarchive_block ih archivePath outputPath ist)))
                         = Some b \<longrightarrow> fileAt q (ios_disk ist) = Some b"
      unfolding eq .
  next
    assume "fst (unarchive_block ih archivePath outputPath ist) = IosReject UNSUPPORTED_FORMAT"
    with ios have eq: "ios_disk (snd (unarchive_block ih archivePath outputPath ist)) = ?t'"
      by blast
    from frame show "\<forall>q. \<not> prefix (canon (ns_names ih (ios_tempPath ih outputPath))) q \<longrightarrow>
                         fileAt q (ios_disk (snd (unarchive_block ih archivePath outputPath ist)))
                           = fileAt q (ios_disk ist)"
      unfolding eq .
  next
    assume "fst (unarchive_block ih archivePath outputPath ist) = IosReject UNSUPPORTED_FORMAT"
    with ios have eq: "ios_disk (snd (unarchive_block ih archivePath outputPath ist)) = ?t'"
      by blast
    from same show "\<forall>p. ns_locate ih (ios_tempPath ih outputPath) (ios_disk ist) = Some p \<and>
                        fs_lookup p (ios_disk ist) = None \<and>
                        is_dir (fs_lookup (butlast p) (ios_disk ist)) \<and> \<not> removeItemFails ih p \<longrightarrow>
                        ios_disk (snd (unarchive_block ih archivePath outputPath ist)) = ios_disk ist"
      unfolding eq .
  qed
qed

theorem precondition_rejections_witness:
  "fst (extraction_job demo_host ''/app/files/gone.zip'' ''/app/files/out'' busy_state)
     = Reject FILE_NOT_FOUND \<and>
   disk (snd (extraction_job demo_host ''/app/files/gone.zip'' ''/app/files/out'' busy_state))
     = disk busy_state \<and>
   fst (unarchive_block ios_demo_host ''/docs/gone.zip'' ''/docs/out'' ios_busy_state)
     = IosReject FILE_NOT_FOUND \<and>
   ios_disk (snd (unarchive_block ios_demo_host ''/docs/gone.zip'' ''/docs/out'' ios_busy_state))
     = ios_disk ios_busy_state \<and>
   fst (unarchive_block ios_demo_host ''/docs/notes.txt'' ''/docs/out'' ios_busy_state)
     = IosReject UNSUPPORTED_FORMAT \<and>
   \<not> removeItemFails ios_demo_host
       [''docs'', ''.unarchive_temp_1B4E6790-0C3A-42D1-8F56-0242AC120002_42''] \<and>
   ios_disk (snd (unarchive_block ios_demo_host ''/docs/notes.txt'' ''/docs/out'' ios_busy_state))
     = ios_disk ios_busy_state"
proof -
  let ?p = "[''docs'', ''.unarchive_temp_1B4E6790-0C3A-42D1-8F56-0242AC120002_42'']"
  have a: "fst (extraction_job demo_host ''/app/files/gone.zip'' ''/app/files/out'' busy_state)
             = Reject FILE_NOT_FOUND"
    by code_simp
  have b: "fst (unarchive_block ios_demo_host ''/docs/gone.zip'' ''/docs/out'' ios_busy_state)
             = IosReject FILE_NOT_FOUND"
    by code_simp
  have c: "fst (unarchive_block ios_demo_host ''/docs/notes.txt'' ''/docs/out'' ios_busy_state)
             = IosReject UNSUPPORTED_FORMAT"
    by code_simp
  have walked: "ns_locate ios_demo_host (ios_tempPath ios_demo_host ''/docs/out'')
                  (ios_disk ios_busy_state) = Some ?p"
    by code_simp
  have free: "fs_lookup ?p (ios_disk ios_busy_state) = None"
    by code_simp
  have parent: "is_dir (fs_lookup (butlast ?p) (ios_disk ios_busy_state))"
    by code_simp
  have allowed: "\<not> removeItemFails ios_demo_host ?p"
    by (simp add: ios_demo_host_def)
  note android = precondition_rejections
    [of demo_host "''/app/files/gone.zip''" "''/app/files/out''" busy_state
        ios_demo_host ios_busy_state]
  note ios_gone = precondition_rejections
    [of demo_host "''/docs/gone.zip''" "''/docs/out''" busy_state ios_demo_host ios_busy_state]
  note ios_notes = precondition_rejections
    [of demo_host "''/docs/notes.txt''" "''/docs/out''" busy_state ios_demo_host ios_busy_state]
  from android a
  have r1: "disk (snd (extraction_job demo_host ''/app/files/gone.zip'' ''/app/files/out''
                         busy_state)) = disk busy_state"
    by blast
  from ios_gone b
  have r2: "ios_disk (snd (unarchive_block ios_demo_host ''/docs/gone.zip'' ''/docs/out''
                             ios_busy_state)) = ios_disk ios_busy_state"
    by blast
  from ios_notes c walked free parent allowed
  have r3: "ios_disk (snd (unarchive_block ios_demo_host ''/docs/notes.txt'' ''/docs/out''
                             ios_busy_state)) = ios_disk ios_busy_state"
    by blast
  from a b c r1 r2 r3 allowed show ?thesis
    by blast
qed

section \<open>Entries without a path\<close>



end
